theory Spec2Isabelle
  imports Complex_Main
begin

section \<open>Face authenticator: enrollment, matching, deletion, sequential labels\<close>

text \<open>
  A shallow embedding of \<^verbatim>\<open>app.py\<close>, \<^verbatim>\<open>database.py\<close> and \<^verbatim>\<open>utils.py\<close>.
  The handlers thread one explicit state through their calls: the rows of the Milvus
  collection, the module global \<^verbatim>\<open>metadata\<close>, the content of
  \<^verbatim>\<open>instance/metadata.json\<close>, and a log of the calls made to the external
  collaborators (the face model, the vector engine, the file system, the uuid generator).
  An uncaught Python exception is the \<open>Inl\<close> branch of a handler's result. Names are
  those of the source; a local variable whose name is a constant of HOL or a field of a
  record here (\<^verbatim>\<open>name\<close>, \<^verbatim>\<open>embedding\<close>, \<^verbatim>\<open>distance\<close>, \<^verbatim>\<open>image\<close>) is abbreviated.

  The external collaborators are parameters of the model:
  \<^item> \<open>detect\<close>: \<^verbatim>\<open>cv2.imdecode\<close> followed by \<^verbatim>\<open>FaceAnalysis.get\<close>, from image bytes
    to the list of detected faces (a total function: bytes on which these libraries raise
    are not modelled);
  \<^item> \<open>accepts\<close>: whether the engine takes a row offered to \<^verbatim>\<open>collection.insert\<close>; it
    raises otherwise (a row the schema excludes, a store that is not available);
  \<^item> \<open>metric\<close>: the distance the engine computes for \<^verbatim>\<open>metric_type = "L2"\<close>;
  \<^item> \<open>matches\<close>: the engine's evaluation of a boolean filter expression on a row;
  \<^item> the string that \<^verbatim>\<open>str(uuid.uuid4())\<close> returns in a call.
  Other failures inside the collaborators (a search or a flush that raises, a file that
  cannot be written) are not modelled. Python floats are modelled as reals: order
  comparisons are the same on every float that is not NaN, and the rounding of float32
  arithmetic is left out.
\<close>

subsection \<open>Python values\<close>

datatype py_error =
    KeyError string
  | AttributeError string
  | TypeError
  | ValueError
  | NotANumber
  | MilvusException

type_synonym bytes = "char list"

type_synonym vec = "real list"

text \<open>\<^verbatim>\<open>str(n)\<close> on a Python integer: decimal digits, with a minus sign when negative.\<close>

definition digit_char :: "nat \<Rightarrow> char" where
  "digit_char d = ''0123456789'' ! d"

function str_nat :: "nat \<Rightarrow> string" where
  "str_nat n = (if n < 10 then [digit_char n] else str_nat (n div 10) @ [digit_char (n mod 10)])"
  by pat_completeness auto
termination
  by (relation "measure id") auto

definition str_int :: "int \<Rightarrow> string" where
  "str_int i = (if i < 0 then CHR ''-'' # str_nat (nat (- i)) else str_nat (nat i))"

text \<open>An f-string field whose value may be \<^verbatim>\<open>None\<close>.\<close>

definition fmt :: "string option \<Rightarrow> string" where
  "fmt v = (case v of None \<Rightarrow> ''None'' | Some s \<Rightarrow> s)"

subsection \<open>The state\<close>

text \<open>
  A row of the collection, with the schema of \<^verbatim>\<open>init_milvus\<close>. The primary key
  \<^verbatim>\<open>pk\<close> is assigned by the engine (\<^verbatim>\<open>auto_id\<close>) and never read by the functions
  modelled here, so rows are kept in insertion order without it.
\<close>

record row =
  embedding :: vec
  user_uuid :: string
  name :: string
  human_id :: string

datatype call =
    Call_get_face_embedding bytes
  | Call_uuid4
  | Call_save_metadata
  | Call_insert
  | Call_flush
  | Call_search vec
  | Call_delete string

record state =
  collection :: "row list"
  metadata :: "string \<rightharpoonup> int"
  metadata_file :: "(string \<rightharpoonup> int) option"
  calls :: "call list"

definition log_call :: "call \<Rightarrow> state \<Rightarrow> state" where
  "log_call c s = s\<lparr>calls := calls s @ [c]\<rparr>"

subsection \<open>database.py: the sequential ID allocator\<close>

text \<open>
  \<^verbatim>\<open>init_milvus\<close>: the part that touches the modelled state reads the counter file when it
  exists and falls back to \<^verbatim>\<open>{"last_user_id": 0}\<close>. A collection that does not exist yet is
  created empty; it is the empty row list here. A process restart resets the module global
  and runs \<^verbatim>\<open>init_milvus\<close>, which overwrites the global in both branches.
\<close>

definition init_milvus :: "state \<Rightarrow> state" where
  "init_milvus s =
     s\<lparr>metadata := (case metadata_file s of
                      Some m \<Rightarrow> m
                    | None \<Rightarrow> [''last_user_id'' \<mapsto> 0])\<rparr>"

definition save_metadata :: "state \<Rightarrow> state" where
  "save_metadata s = log_call Call_save_metadata (s\<lparr>metadata_file := Some (metadata s)\<rparr>)"

definition get_next_human_id :: "state \<Rightarrow> (py_error + string) \<times> state" where
  "get_next_human_id s =
     (case metadata s ''last_user_id'' of
        None \<Rightarrow> (Inl (KeyError ''last_user_id''), s)
      | Some n \<Rightarrow>
          let s1 = s\<lparr>metadata := (metadata s)(''last_user_id'' \<mapsto> n + 1)\<rparr>;
              s2 = save_metadata s1
          in (case metadata s2 ''last_user_id'' of
                None \<Rightarrow> (Inl (KeyError ''last_user_id''), s2)
              | Some c \<Rightarrow> (Inr (''fr'' @ str_int c), s2)))"

subsection \<open>database.py: the collection\<close>

text \<open>
  The schema that \<^verbatim>\<open>init_milvus\<close> gives the collection: a vector of
  \<^verbatim>\<open>EMBEDDING_DIMENSION\<close> components and three strings of at most 36, 255 and 20 bytes.
  The engine takes only rows that fit the schema of the collection.
\<close>

definition EMBEDDING_DIMENSION :: nat where
  "EMBEDDING_DIMENSION = 512"

definition schema_accepts :: "row \<Rightarrow> bool" where
  "schema_accepts r \<longleftrightarrow>
     length (embedding r) = EMBEDDING_DIMENSION \<and>
     length (user_uuid r) \<le> 36 \<and>
     length (name r) \<le> 255 \<and>
     length (human_id r) \<le> 20"

text \<open>
  The object \<^verbatim>\<open>collection.insert\<close> and \<^verbatim>\<open>collection.delete\<close> return is a pymilvus
  \<^verbatim>\<open>MutationResult\<close>, whose attributes are read-only properties of fixed names
  (\<^verbatim>\<open>insert_count\<close>, \<^verbatim>\<open>delete_count\<close> and others, none of them named
  \<^verbatim>\<open>delete_coun\<close>); reading any other name raises \<^verbatim>\<open>AttributeError\<close>. Only the two
  counts are kept here.
\<close>

record mutation_result =
  insert_count :: nat
  delete_count :: nat

definition mutation_result_getattr :: "mutation_result \<Rightarrow> string \<Rightarrow> py_error + nat" where
  "mutation_result_getattr mr a =
     (if a = ''insert_count'' then Inr (insert_count mr)
      else if a = ''delete_count'' then Inr (delete_count mr)
      else Inl (AttributeError a))"

text \<open>
  Modelled from the spec: \<^verbatim>\<open>collection.insert\<close> appends the row when the engine accepts
  it and raises otherwise, leaving the collection as it was. Whether the engine accepts a
  row is the parameter \<open>accepts\<close>; \<open>schema_accepts\<close> is the instance read off the schema.
\<close>

definition collection_insert ::
  "(row \<Rightarrow> bool) \<Rightarrow> row \<Rightarrow> state \<Rightarrow> (py_error + mutation_result) \<times> state" where
  "collection_insert accepts r s =
     (if accepts r
      then (Inr \<lparr>insert_count = 1, delete_count = 0\<rparr>,
            log_call Call_insert (s\<lparr>collection := collection s @ [r]\<rparr>))
      else (Inl MilvusException, log_call Call_insert s))"

text \<open>
  \<^verbatim>\<open>add_user\<close>: a fresh uuid, the next label, one row inserted, a flush. The label is
  allocated and saved before the insert, so an insert that raises leaves the counter
  advanced and no row.
\<close>

definition add_user ::
  "(row \<Rightarrow> bool) \<Rightarrow> string \<Rightarrow> vec \<Rightarrow> string \<Rightarrow> state \<Rightarrow> (py_error + string \<times> string) \<times> state" where
  "add_user accepts nm avg_embedding uuid4 s =
     (let s1 = log_call Call_uuid4 s
      in (case get_next_human_id s1 of
            (Inl e, s2) \<Rightarrow> (Inl e, s2)
          | (Inr hid, s2) \<Rightarrow>
              let data_to_insert =
                    \<lparr>embedding = avg_embedding, user_uuid = uuid4, name = nm, human_id = hid\<rparr>
              in (case collection_insert accepts data_to_insert s2 of
                    (Inl e, s3) \<Rightarrow> (Inl e, s3)
                  | (Inr _, s3) \<Rightarrow>
                      let s4 = log_call Call_flush s3
                      in (Inr (uuid4, hid), s4))))"

text \<open>
  Modelled from the spec: the engine's reply to \<^verbatim>\<open>collection.search\<close> (pymilvus and the
  Milvus server are not part of the sources). For each query vector, the \<open>limit\<close> rows
  nearest under the metric, nearest first, each with its distance and the requested output
  fields: the exact (brute force) search that the store's contract accepts at small scale.
  The metric is a parameter. Among equally near rows this model returns the one inserted
  first; the engine's own choice is not specified.
\<close>

record hit =
  distance :: real
  entity :: "string \<rightharpoonup> string"

definition row_field :: "row \<Rightarrow> string \<rightharpoonup> string" where
  "row_field r f =
     (if f = ''user_uuid'' then Some (user_uuid r)
      else if f = ''name'' then Some (name r)
      else if f = ''human_id'' then Some (human_id r)
      else None)"

definition hit_of :: "(vec \<Rightarrow> vec \<Rightarrow> real) \<Rightarrow> string list \<Rightarrow> vec \<Rightarrow> row \<Rightarrow> hit" where
  "hit_of metric output_fields q r =
     \<lparr>distance = metric q (embedding r),
      entity = (\<lambda>f. if f \<in> set output_fields then row_field r f else None)\<rparr>"

definition collection_search ::
  "(vec \<Rightarrow> vec \<Rightarrow> real) \<Rightarrow> row list \<Rightarrow> vec list \<Rightarrow> nat \<Rightarrow> string list \<Rightarrow> hit list list" where
  "collection_search metric rows data limit output_fields =
     map (\<lambda>q. map (hit_of metric output_fields q)
                 (take limit (sort_key (\<lambda>r. metric q (embedding r)) rows))) data"

type_synonym match = "string option \<times> string option \<times> string option \<times> real option"

definition no_match :: match where
  "no_match = (None, None, None, None)"

definition find_similar_user :: "(vec \<Rightarrow> vec \<Rightarrow> real) \<Rightarrow> vec \<Rightarrow> real \<Rightarrow> state \<Rightarrow> match \<times> state" where
  "find_similar_user metric emb threshold s =
     (let results = collection_search metric (collection s) [emb] 1
                      [''user_uuid'', ''name'', ''human_id''];
          s1 = log_call (Call_search emb) s
      in (case results of
            [] \<Rightarrow> (no_match, s1)
          | hits # _ \<Rightarrow>
              (case hits of
                 [] \<Rightarrow> (no_match, s1)
               | top_hit # _ \<Rightarrow>
                   if distance top_hit < threshold
                   then ((entity top_hit ''user_uuid'', entity top_hit ''name'',
                          entity top_hit ''human_id'', Some (distance top_hit)), s1)
                   else (no_match, s1))))"

text \<open>
  Modelled from the spec: \<^verbatim>\<open>collection.delete\<close> removes every row on which the filter
  expression holds and reports how many. How the engine evaluates an expression on a row
  is the parameter \<open>matches\<close>.
\<close>

definition collection_delete ::
  "(string \<Rightarrow> row \<Rightarrow> bool) \<Rightarrow> string \<Rightarrow> state \<Rightarrow> mutation_result \<times> state" where
  "collection_delete matches expr s =
     (\<lparr>insert_count = 0, delete_count = length (filter (matches expr) (collection s))\<rparr>,
      log_call (Call_delete expr) (s\<lparr>collection := filter (\<lambda>r. \<not> matches expr r) (collection s)\<rparr>))"

definition quote :: char where
  "quote = CHR 0x27"

text \<open>\<^verbatim>\<open>delete_user\<close> ends with \<^verbatim>\<open>return result.delete_coun\<close>.\<close>

definition delete_user :: "(string \<Rightarrow> row \<Rightarrow> bool) \<Rightarrow> string \<Rightarrow> state \<Rightarrow> (py_error + nat) \<times> state" where
  "delete_user matches uuid s =
     (let expr = ''user_uuid == '' @ [quote] @ uuid @ [quote];
          (result, s1) = collection_delete matches expr s;
          s2 = log_call Call_flush s1
      in (mutation_result_getattr result ''delete_coun'', s2))"

subsection \<open>utils.py\<close>

record face =
  normed_embedding :: vec

definition get_face_embedding :: "(bytes \<Rightarrow> face list) \<Rightarrow> bytes \<Rightarrow> vec option" where
  "get_face_embedding detect image_bytes =
     (case detect image_bytes of
        [] \<Rightarrow> None
      | f # _ \<Rightarrow> Some (normed_embedding f))"

subsection \<open>app.py\<close>

record file_storage =
  filename :: string
  stream :: bytes

text \<open>\<open>files\<close> is \<^verbatim>\<open>request.files.getlist("image")\<close>; \<^verbatim>\<open>request.files['image']\<close> is its head.\<close>

record request =
  form :: "string \<rightharpoonup> string"
  files :: "file_storage list"

datatype json = JNull | JBool bool | JStr string | JNum real

record response =
  status :: nat
  body :: "(string \<times> json) list"

definition jsonify :: "(string \<times> json) list \<Rightarrow> nat \<Rightarrow> response" where
  "jsonify d code = \<lparr>status = code, body = d\<rparr>"

definition json_of :: "string option \<Rightarrow> json" where
  "json_of v = (case v of None \<Rightarrow> JNull | Some s \<Rightarrow> JStr s)"

definition DISTANCE_THRESHOLD :: real where
  "DISTANCE_THRESHOLD = 11 / 10"

text \<open>
  Modelled from the spec: \<^verbatim>\<open>np.mean(embeddings, axis=0)\<close> (numpy is not part of the
  sources), computed as numpy does, as the sum along the first axis divided by the number
  of arrays. Arrays of different lengths do not form an array (\<^verbatim>\<open>ValueError\<close>); the
  mean of no array is NaN, which has no real counterpart and is an error value here.
  \<^verbatim>\<open>api_register\<close> calls it with at least two arrays.
\<close>

definition np_add :: "vec \<Rightarrow> vec \<Rightarrow> vec" where
  "np_add xs ys = map2 (+) xs ys"

definition np_mean :: "vec list \<Rightarrow> py_error + vec" where
  "np_mean arrs =
     (case arrs of
        [] \<Rightarrow> Inl NotANumber
      | a # rest \<Rightarrow>
          if list_all (\<lambda>b. length b = length a) rest
          then Inr (map (\<lambda>x. x / real (length arrs)) (foldl np_add a rest))
          else Inl ValueError)"

text \<open>
  The loop of \<^verbatim>\<open>api_register\<close> over the uploaded files: \<open>Inl\<close> is the early return
  with the response for the first image without a face, \<open>Inr\<close> the embeddings collected.
\<close>

definition no_face_response :: "string \<Rightarrow> response" where
  "no_face_response fname =
     jsonify [(''error'', JStr (''No face detected in one of the images ('' @ [quote] @ fname
                                  @ [quote] @ '').''))] 400"

fun register_loop ::
  "(bytes \<Rightarrow> face list) \<Rightarrow> file_storage list \<Rightarrow> vec list \<Rightarrow> state \<Rightarrow> (response + vec list) \<times> state" where
  "register_loop detect [] embeddings s = (Inr embeddings, s)"
| "register_loop detect (image_file # rest) embeddings s =
     (if filename image_file = [] then register_loop detect rest embeddings s
      else
        let image_bytes = stream image_file;
            s1 = log_call (Call_get_face_embedding image_bytes) s
        in (case get_face_embedding detect image_bytes of
              None \<Rightarrow> (Inl (no_face_response (filename image_file)), s1)
            | Some emb \<Rightarrow> register_loop detect rest (embeddings @ [emb]) s1))"

definition api_register ::
  "(bytes \<Rightarrow> face list) \<Rightarrow> (row \<Rightarrow> bool) \<Rightarrow> string \<Rightarrow> request \<Rightarrow> state \<Rightarrow>
   (py_error + response) \<times> state" where
  "api_register detect accepts uuid4 req s =
     (let image_files = files req
      in (case form req ''name'' of
            None \<Rightarrow> (Inr (jsonify [(''error'', JStr ''Missing name'')] 400), s)
          | Some nm \<Rightarrow>
              if nm = [] then (Inr (jsonify [(''error'', JStr ''Missing name'')] 400), s)
              else if \<not> (2 \<le> length image_files \<and> length image_files \<le> 4)
              then (Inr (jsonify
                      [(''error'', JStr (''Please upload between 2 and 4 images. You uploaded ''
                                          @ str_int (int (length image_files)) @ ''.''))] 400), s)
              else
                (case register_loop detect image_files [] s of
                   (Inl resp, s1) \<Rightarrow> (Inr resp, s1)
                 | (Inr embeddings, s1) \<Rightarrow>
                     if length embeddings < 2
                     then (Inr (jsonify
                             [(''error'', JStr ''Fewer than 2 valid images were processed.'')] 400), s1)
                     else
                       (case np_mean embeddings of
                          Inl e \<Rightarrow> (Inl e, s1)
                        | Inr avg_embedding \<Rightarrow>
                            (case add_user accepts nm avg_embedding uuid4 s1 of
                               (Inl e, s2) \<Rightarrow> (Inl e, s2)
                             | (Inr (uid, user_id_human), s2) \<Rightarrow>
                                 (Inr (jsonify
                                    [(''success'', JBool True),
                                     (''message'', JStr (''User '' @ [quote] @ nm @ [quote]
                                        @ '' registered successfully with ID '' @ user_id_human @ ''.'')),
                                     (''uuid'', JStr uid),
                                     (''human_id'', JStr user_id_human)] 201), s2))))))"

definition api_authenticate ::
  "(bytes \<Rightarrow> face list) \<Rightarrow> (vec \<Rightarrow> vec \<Rightarrow> real) \<Rightarrow> request \<Rightarrow> state \<Rightarrow> (py_error + response) \<times> state" where
  "api_authenticate detect metric req s =
     (case files req of
        [] \<Rightarrow> (Inr (jsonify [(''error'', JStr ''Missing image'')] 400), s)
      | img # _ \<Rightarrow>
          if filename img = [] then (Inr (jsonify [(''error'', JStr ''Missing image'')] 400), s)
          else
            let s1 = log_call (Call_get_face_embedding (stream img)) s
            in (case get_face_embedding detect (stream img) of
                  None \<Rightarrow>
                    (Inr (jsonify [(''authenticated'', JBool False),
                                   (''message'', JStr ''No face detected'')] 200), s1)
                | Some emb \<Rightarrow>
                    (case find_similar_user metric emb DISTANCE_THRESHOLD s1 of
                       ((uid, nm, hid, dst), s2) \<Rightarrow>
                         if nm \<noteq> None \<and> nm \<noteq> Some []
                         then (case dst of
                                 None \<Rightarrow> (Inl TypeError, s2)
                               | Some d \<Rightarrow>
                                   (Inr (jsonify
                                      [(''authenticated'', JBool True),
                                       (''message'', JStr (''Authentication successful. Welcome, ''
                                          @ fmt nm @ ''. Your ID is '' @ fmt hid @ ''.'')),
                                       (''uuid'', json_of uid), (''name'', json_of nm),
                                       (''human_id'', json_of hid), (''distance'', JNum d)] 200), s2))
                         else (Inr (jsonify [(''authenticated'', JBool False),
                                             (''message'', JStr ''User not recognized'')] 200), s2))))"

text \<open>
  \<^verbatim>\<open>delete_user_page\<close>: the flashed message and its category; the redirect to the index
  follows in both branches. The count is tested for truth.
\<close>

definition delete_user_page ::
  "(string \<Rightarrow> row \<Rightarrow> bool) \<Rightarrow> string \<Rightarrow> state \<Rightarrow> (py_error + string \<times> string) \<times> state" where
  "delete_user_page matches uuid s =
     (case delete_user matches uuid s of
        (Inl e, s1) \<Rightarrow> (Inl e, s1)
      | (Inr success, s1) \<Rightarrow>
          if success \<noteq> 0 then (Inr (''User deleted successfully.'', ''success''), s1)
          else (Inr (''Error: User not found.'', ''danger''), s1))"

declare str_nat.simps [simp del]

subsection \<open>Notions used to state the properties\<close>

text \<open>
  The files the loop of \<^verbatim>\<open>api_register\<close> hands to the face model (those with a file
  name), the embeddings it collects from them, and the calls it makes.
\<close>

definition processed :: "file_storage list \<Rightarrow> file_storage list" where
  "processed fs = filter (\<lambda>f. filename f \<noteq> []) fs"

definition embeddings_of :: "(bytes \<Rightarrow> face list) \<Rightarrow> file_storage list \<Rightarrow> vec list" where
  "embeddings_of detect fs =
     List.map_filter (\<lambda>f. get_face_embedding detect (stream f)) (processed fs)"

definition embedding_calls :: "file_storage list \<Rightarrow> call list" where
  "embedding_calls fs = map (\<lambda>f. Call_get_face_embedding (stream f)) (processed fs)"

text \<open>The two remaining responses of \<^verbatim>\<open>api_register\<close>, named.\<close>

definition registered_response :: "string \<Rightarrow> string \<Rightarrow> string \<Rightarrow> response" where
  "registered_response nm uid hid =
     jsonify [(''success'', JBool True),
              (''message'', JStr (''User '' @ [quote] @ nm @ [quote]
                 @ '' registered successfully with ID '' @ hid @ ''.'')),
              (''uuid'', JStr uid), (''human_id'', JStr hid)] 201"

definition fewer_response :: response where
  "fewer_response = jsonify [(''error'', JStr ''Fewer than 2 valid images were processed.'')] 400"

subsection \<open>Runs of the system\<close>

text \<open>
  The states the program can be in: it starts on an empty collection, and each restart and
  each request handled leads from one state to the next. Rows enter the collection
  through \<^verbatim>\<open>api_register\<close> only.
\<close>

inductive reachable :: "state \<Rightarrow> bool" where
  reachable_fresh: "collection s = [] \<Longrightarrow> reachable s"
| reachable_restart: "reachable s \<Longrightarrow> reachable (init_milvus s)"
| reachable_register:
    "reachable s \<Longrightarrow> reachable (snd (api_register detect accepts uuid4 req s))"
| reachable_authenticate: "reachable s \<Longrightarrow> reachable (snd (api_authenticate detect metric req s))"
| reachable_delete: "reachable s \<Longrightarrow> reachable (snd (delete_user_page matches uuid s))"

text \<open>
  A run: a list of requests and restarts handled in order from a given state. It hands
  back the labels that the enrollments answered with status 201 carry in their
  \<^verbatim>\<open>human_id\<close> field, in the order of issue, and the final state.
\<close>

datatype event =
    Register string request
  | Authenticate request
  | Delete string
  | Restart

fun issued :: "py_error + response \<Rightarrow> string list" where
  "issued (Inl e) = []"
| "issued (Inr resp) =
     (if status resp = 201
      then (case map_of (body resp) ''human_id'' of Some (JStr h) \<Rightarrow> [h] | _ \<Rightarrow> [])
      else [])"

fun run ::
  "(bytes \<Rightarrow> face list) \<Rightarrow> (row \<Rightarrow> bool) \<Rightarrow> (vec \<Rightarrow> vec \<Rightarrow> real) \<Rightarrow>
   (string \<Rightarrow> row \<Rightarrow> bool) \<Rightarrow> event list \<Rightarrow> state \<Rightarrow> string list \<times> state" where
  "run detect accepts metric matches [] s = ([], s)"
| "run detect accepts metric matches (Register uuid4 req # es) s =
     (case api_register detect accepts uuid4 req s of
        (res, s1) \<Rightarrow>
          (case run detect accepts metric matches es s1 of
             (labels, s2) \<Rightarrow> (issued res @ labels, s2)))"
| "run detect accepts metric matches (Authenticate req # es) s =
     run detect accepts metric matches es (snd (api_authenticate detect metric req s))"
| "run detect accepts metric matches (Delete uuid # es) s =
     run detect accepts metric matches es (snd (delete_user_page matches uuid s))"
| "run detect accepts metric matches (Restart # es) s =
     run detect accepts metric matches es (init_milvus s)"

text \<open>
  Labels are compared by the integer that follows the prefix \<^verbatim>\<open>fr\<close>, read back as
  Python's \<^verbatim>\<open>int\<close> reads a decimal string.
\<close>

definition digit_val :: "char \<Rightarrow> nat" where
  "digit_val c = of_char c - 48"

definition nat_of_str :: "string \<Rightarrow> nat" where
  "nat_of_str cs = foldl (\<lambda>a c. 10 * a + digit_val c) 0 cs"

definition int_of_str :: "string \<Rightarrow> int" where
  "int_of_str cs =
     (case cs of
        [] \<Rightarrow> 0
      | c # rest \<Rightarrow> if c = CHR ''-'' then - int (nat_of_str rest) else int (nat_of_str cs))"

definition label_number :: "string \<Rightarrow> int" where
  "label_number label = int_of_str (drop 2 label)"

subsection \<open>Concrete instances\<close>

text \<open>
  Instances of the parameters, for evaluating the handlers on concrete inputs.
  \<^item> \<open>l2_distance\<close>: the squared Euclidean distance, which is the value the engine reports
    for \<^verbatim>\<open>metric_type = "L2"\<close>.
  \<^item> \<open>demo_detect\<close>: a face model that finds one face in the images whose first byte is
    \<^verbatim>\<open>F\<close> and none in the others; the embedding has \<^verbatim>\<open>EMBEDDING_DIMENSION\<close> equal
    components, read off the image's size.
  \<^item> \<open>uuid_filter\<close>: the evaluation of the expressions \<^verbatim>\<open>delete_user\<close> builds from an id
    without a quote character, \<^verbatim>\<open>user_uuid == '<id>'\<close>, which hold of the rows with
    that id. An id with a quote character changes the structure of the expression; the
    engine parses it, and this instance does not say what the engine does then.
\<close>

definition l2_distance :: "vec \<Rightarrow> vec \<Rightarrow> real" where
  "l2_distance x y = (\<Sum>(a, b)\<leftarrow>zip x y. (a - b)\<^sup>2)"

definition demo_detect :: "bytes \<Rightarrow> face list" where
  "demo_detect b =
     (if take 1 b = ''F''
      then [\<lparr>normed_embedding = replicate EMBEDDING_DIMENSION (real (length b))\<rparr>]
      else [])"

definition uuid_filter :: "string \<Rightarrow> row \<Rightarrow> bool" where
  "uuid_filter expr r = (expr = ''user_uuid == '' @ [quote] @ user_uuid r @ [quote])"

definition fresh_state :: state where
  "fresh_state =
     \<lparr>collection = [], metadata = [''last_user_id'' \<mapsto> 0], metadata_file = None, calls = []\<rparr>"

definition two_rows :: state where
  "two_rows =
     \<lparr>collection =
        [\<lparr>embedding = [3, 4], user_uuid = ''uuid-B'', name = ''Bob'', human_id = ''fr2''\<rparr>,
         \<lparr>embedding = [1, 0], user_uuid = ''uuid-A'', name = ''Alice'', human_id = ''fr1''\<rparr>],
      metadata = [''last_user_id'' \<mapsto> 2],
      metadata_file = Some [''last_user_id'' \<mapsto> 2],
      calls = []\<rparr>"

definition photo :: "string \<Rightarrow> bytes \<Rightarrow> file_storage" where
  "photo fname b = \<lparr>filename = fname, stream = b\<rparr>"

definition alice_request :: request where
  "alice_request =
     \<lparr>form = [''name'' \<mapsto> ''Alice''],
      files = [photo ''a1.jpg'' ''F'', photo ''a2.jpg'' ''FFF'']\<rparr>"

definition alice_state :: state where
  "alice_state =
     \<lparr>collection =
        [\<lparr>embedding = replicate EMBEDDING_DIMENSION 2, user_uuid = ''uuid-A'',
          name = ''Alice'', human_id = ''fr1''\<rparr>],
      metadata = [''last_user_id'' \<mapsto> 1],
      metadata_file = Some [''last_user_id'' \<mapsto> 1],
      calls = [Call_get_face_embedding ''F'', Call_get_face_embedding ''FFF'',
               Call_uuid4, Call_save_metadata, Call_insert, Call_flush]\<rparr>"

definition alice_probe :: request where
  "alice_probe = \<lparr>form = Map.empty, files = [photo ''probe.jpg'' ''FF'']\<rparr>"

definition nameless_request :: request where
  "nameless_request = \<lparr>form = Map.empty, files = [photo ''a1.jpg'' ''F'', photo ''a2.jpg'' ''FFF'']\<rparr>"

definition one_image_request :: request where
  "one_image_request = \<lparr>form = [''name'' \<mapsto> ''Alice''], files = [photo ''a1.jpg'' ''F'']\<rparr>"

definition blank_image_request :: request where
  "blank_image_request =
     \<lparr>form = [''name'' \<mapsto> ''Carol''],
      files = [photo ''c1.jpg'' ''F'', photo ''c2.jpg'' ''sky'', photo ''c3.jpg'' ''FF'']\<rparr>"

definition bob_request :: request where
  "bob_request =
     \<lparr>form = [''name'' \<mapsto> ''Bob''],
      files = [photo ''b1.jpg'' ''FFFF'', photo ''b2.jpg'' ''FFFFFF'']\<rparr>"

definition unnamed_file_request :: request where
  "unnamed_file_request =
     \<lparr>form = [''name'' \<mapsto> ''Alice''],
      files = [photo [] ''zz'', photo ''a1.jpg'' ''F'', photo ''a2.jpg'' ''FFF'']\<rparr>"

definition unnamed_and_one_request :: request where
  "unnamed_and_one_request =
     \<lparr>form = [''name'' \<mapsto> ''Alice''], files = [photo [] ''zz'', photo ''a1.jpg'' ''F'']\<rparr>"

definition unnamed_and_blank_request :: request where
  "unnamed_and_blank_request =
     \<lparr>form = [''name'' \<mapsto> ''Carol''],
      files = [photo [] ''zz'', photo ''c1.jpg'' ''F'', photo ''c2.jpg'' ''sky'', photo ''c3.jpg'' ''FF'']\<rparr>"

definition long_name :: string where
  "long_name = replicate 256 (CHR ''n'')"

definition long_name_request :: request where
  "long_name_request =
     \<lparr>form = [''name'' \<mapsto> long_name],
      files = [photo ''n1.jpg'' ''FF'', photo ''n2.jpg'' ''FFFF'']\<rparr>"

section \<open>Properties\<close>

subsection \<open>Helper facts: the engine's search\<close>

lemma sort_key_head_least:
  assumes "rows \<noteq> []"
  shows "\<exists>r rest. sort_key f rows = r # rest \<and> r \<in> set rows \<and> (\<forall>r'\<in>set rows. f r \<le> f r')"
proof -
  have "sort_key f rows \<noteq> []"
    using assms by (metis length_sort length_0_conv)
  then obtain r rest where eq: "sort_key f rows = r # rest"
    by (cases "sort_key f rows") auto
  have "sorted (map f (r # rest))"
    using sorted_sort_key [of f rows] by (simp add: eq)
  then have least: "\<forall>r'\<in>set (r # rest). f r \<le> f r'"
    by auto
  have "set (r # rest) = set rows"
    using set_sort [of f rows] by (simp add: eq)
  with least eq show ?thesis by auto
qed

lemma find_similar_user_empty:
  "collection s = [] \<Longrightarrow> find_similar_user metric q t s = (no_match, log_call (Call_search q) s)"
  by (simp add: find_similar_user_def collection_search_def Let_def)

lemma find_similar_user_nearest:
  assumes "collection s \<noteq> []"
  shows "\<exists>r\<in>set (collection s).
           (\<forall>r'\<in>set (collection s). metric q (embedding r) \<le> metric q (embedding r')) \<and>
           find_similar_user metric q t s =
             (if metric q (embedding r) < t
              then (Some (user_uuid r), Some (name r), Some (human_id r), Some (metric q (embedding r)))
              else no_match, log_call (Call_search q) s)"
proof -
  obtain r rest where eq: "sort_key (\<lambda>r. metric q (embedding r)) (collection s) = r # rest"
    and mem: "r \<in> set (collection s)"
    and least: "\<forall>r'\<in>set (collection s). metric q (embedding r) \<le> metric q (embedding r')"
    using sort_key_head_least [OF assms, of "\<lambda>r. metric q (embedding r)"] by blast
  have "find_similar_user metric q t s =
          (if metric q (embedding r) < t
           then (Some (user_uuid r), Some (name r), Some (human_id r), Some (metric q (embedding r)))
           else no_match, log_call (Call_search q) s)"
    by (simp add: find_similar_user_def collection_search_def Let_def eq hit_of_def row_field_def)
  with mem least show ?thesis by blast
qed

lemma l2_distance_unit: "l2_distance [0, 0] [1, 0] = 1"
  by (simp add: l2_distance_def)

lemma l2_distance_3_4: "l2_distance [0, 0] [3, 4] = 25"
  by (simp add: l2_distance_def)

subsection \<open>Helper facts: enrollment\<close>

lemma register_loop_all_embedded:
  assumes "\<forall>f\<in>set (processed fs). get_face_embedding detect (stream f) \<noteq> None"
  shows "register_loop detect fs embs s =
           (Inr (embs @ embeddings_of detect fs), s\<lparr>calls := calls s @ embedding_calls fs\<rparr>)"
  using assms
proof (induction fs arbitrary: embs s)
  case Nil
  then show ?case
    by (simp add: embeddings_of_def embedding_calls_def processed_def List.map_filter_simps)
next
  case (Cons f fs)
  show ?case
  proof (cases "filename f = []")
    case True
    with Cons show ?thesis
      by (simp add: embeddings_of_def embedding_calls_def processed_def)
  next
    case False
    with Cons.prems obtain e where e: "get_face_embedding detect (stream f) = Some e"
      by (auto simp: processed_def)
    have rest: "\<forall>g\<in>set (processed fs). get_face_embedding detect (stream g) \<noteq> None"
      using Cons.prems by (simp add: processed_def)
    show ?thesis
      using False e Cons.IH [OF rest]
      by (simp add: embeddings_of_def embedding_calls_def processed_def
          List.map_filter_simps log_call_def)
  qed
qed

lemma register_loop_first_failure:
  assumes "\<forall>g\<in>set (processed pre). get_face_embedding detect (stream g) \<noteq> None"
    and "filename f \<noteq> []" and "get_face_embedding detect (stream f) = None"
  shows "register_loop detect (pre @ f # post) embs s =
           (Inl (no_face_response (filename f)),
            s\<lparr>calls := calls s @ embedding_calls (pre @ [f])\<rparr>)"
  using assms(1)
proof (induction pre arbitrary: embs s)
  case Nil
  then show ?case
    using assms(2,3) by (simp add: embedding_calls_def processed_def log_call_def)
next
  case (Cons g pre)
  show ?case
  proof (cases "filename g = []")
    case True
    with Cons show ?thesis
      by (simp add: embedding_calls_def processed_def)
  next
    case False
    with Cons.prems obtain e where e: "get_face_embedding detect (stream g) = Some e"
      by (auto simp: processed_def)
    have rest: "\<forall>h\<in>set (processed pre). get_face_embedding detect (stream h) \<noteq> None"
      using Cons.prems by (simp add: processed_def)
    show ?thesis
      using False e Cons.IH [OF rest]
      by (simp add: embedding_calls_def processed_def log_call_def)
  qed
qed

lemma first_failure_split:
  assumes "\<exists>f\<in>set fs. filename f \<noteq> [] \<and> get_face_embedding detect (stream f) = None"
  shows "\<exists>pre f post. fs = pre @ f # post \<and> filename f \<noteq> [] \<and>
           get_face_embedding detect (stream f) = None \<and>
           (\<forall>g\<in>set (processed pre). get_face_embedding detect (stream g) \<noteq> None)"
proof -
  obtain pre f post where "fs = pre @ f # post"
    and "filename f \<noteq> [] \<and> get_face_embedding detect (stream f) = None"
    and "\<forall>g\<in>set pre. \<not> (filename g \<noteq> [] \<and> get_face_embedding detect (stream g) = None)"
    using split_list_first_prop [OF assms] by blast
  then show ?thesis
    by (auto simp: processed_def)
qed

lemma api_register_first_failure:
  assumes "form req ''name'' = Some nm" and "nm \<noteq> []"
    and "2 \<le> length (files req)" and "length (files req) \<le> 4"
    and "\<exists>f\<in>set (files req). filename f \<noteq> [] \<and> get_face_embedding detect (stream f) = None"
  shows "\<exists>pre f post. files req = pre @ f # post \<and> filename f \<noteq> [] \<and>
           get_face_embedding detect (stream f) = None \<and>
           api_register detect accepts uuid4 req s =
             (Inr (no_face_response (filename f)),
              s\<lparr>calls := calls s @ embedding_calls (pre @ [f])\<rparr>)"
proof -
  obtain pre f post where split: "files req = pre @ f # post"
    and f: "filename f \<noteq> []" "get_face_embedding detect (stream f) = None"
    and pre: "\<forall>g\<in>set (processed pre). get_face_embedding detect (stream g) \<noteq> None"
    using first_failure_split [OF assms(5)] by blast
  have "register_loop detect (files req) [] s =
          (Inl (no_face_response (filename f)), s\<lparr>calls := calls s @ embedding_calls (pre @ [f])\<rparr>)"
    unfolding split by (rule register_loop_first_failure [OF pre f])
  then have "api_register detect accepts uuid4 req s =
          (Inr (no_face_response (filename f)), s\<lparr>calls := calls s @ embedding_calls (pre @ [f])\<rparr>)"
    using assms(1-4) by (simp add: api_register_def Let_def)
  with split f show ?thesis by blast
qed

lemma foldl_np_add:
  assumes "\<forall>b\<in>set rest. length b = length a"
  shows "length (foldl np_add a rest) = length a \<and>
         (\<forall>i<length a. foldl np_add a rest ! i = a ! i + (\<Sum>b\<leftarrow>rest. b ! i))"
  using assms
proof (induction rest arbitrary: a)
  case Nil
  then show ?case by simp
next
  case (Cons b rest)
  have len: "length (np_add a b) = length a"
    using Cons.prems by (simp add: np_add_def)
  have "\<forall>c\<in>set rest. length c = length (np_add a b)"
    using Cons.prems len by simp
  from Cons.IH [OF this] len
  have IH: "length (foldl np_add (np_add a b) rest) = length a"
    "\<forall>i<length a. foldl np_add (np_add a b) rest ! i = np_add a b ! i + (\<Sum>c\<leftarrow>rest. c ! i)"
    by simp_all
  have "\<forall>i<length a. np_add a b ! i = a ! i + b ! i"
    using Cons.prems by (simp add: np_add_def)
  with IH show ?case by (simp add: add.assoc)
qed

lemma np_mean_elementwise:
  assumes "np_mean arrs = Inr avg"
  shows "arrs \<noteq> [] \<and> (\<forall>a\<in>set arrs. length a = length avg) \<and>
         (\<forall>i<length avg. avg ! i = (\<Sum>a\<leftarrow>arrs. a ! i) / real (length arrs))"
proof (cases arrs)
  case Nil
  with assms show ?thesis by (simp add: np_mean_def)
next
  case (Cons a rest)
  with assms have same: "\<forall>b\<in>set rest. length b = length a"
    and avg: "avg = map (\<lambda>x. x / real (length arrs)) (foldl np_add a rest)"
    by (auto simp: np_mean_def list_all_iff split: if_splits)
  note sum = foldl_np_add [OF same]
  have len: "length avg = length a"
    using sum avg by simp
  have "\<forall>i<length avg. avg ! i = (\<Sum>b\<leftarrow>arrs. b ! i) / real (length arrs)"
    using sum len by (simp add: avg Cons)
  with same len Cons show ?thesis by simp
qed

lemma np_mean_same_length:
  assumes "arrs \<noteq> []" and "\<forall>a\<in>set arrs. length a = n"
  shows "\<exists>avg. np_mean arrs = Inr avg"
  using assms by (cases arrs) (auto simp: np_mean_def list_all_iff)

lemma get_next_human_id_step:
  assumes "metadata s ''last_user_id'' = Some n"
  shows "get_next_human_id s =
           (Inr (''fr'' @ str_int (n + 1)),
            s\<lparr>metadata := (metadata s)(''last_user_id'' \<mapsto> n + 1),
              metadata_file := Some ((metadata s)(''last_user_id'' \<mapsto> n + 1)),
              calls := calls s @ [Call_save_metadata]\<rparr>)"
  using assms by (simp add: get_next_human_id_def save_metadata_def log_call_def Let_def)

lemma get_next_human_id_no_key:
  assumes "metadata s ''last_user_id'' = None"
  shows "get_next_human_id s = (Inl (KeyError ''last_user_id''), s)"
  using assms by (simp add: get_next_human_id_def)

lemma length_embeddings_of:
  assumes "\<forall>f\<in>set (processed fs). get_face_embedding detect (stream f) \<noteq> None"
  shows "length (embeddings_of detect fs) = length (processed fs)"
proof -
  have "filter (\<lambda>f. get_face_embedding detect (stream f) \<noteq> None) (processed fs) = processed fs"
    using assms by (simp add: filter_id_conv)
  then show ?thesis
    by (simp add: embeddings_of_def List.map_filter_def)
qed

lemma length_processed: "length (processed fs) \<le> length fs"
  by (simp add: processed_def)

lemma add_user_accepted:
  assumes "metadata s ''last_user_id'' = Some n"
    and "accepts \<lparr>embedding = avg, user_uuid = uuid4, name = nm,
                   human_id = ''fr'' @ str_int (n + 1)\<rparr>"
  shows "add_user accepts nm avg uuid4 s =
           (Inr (uuid4, ''fr'' @ str_int (n + 1)),
            s\<lparr>collection := collection s @
                 [\<lparr>embedding = avg, user_uuid = uuid4, name = nm, human_id = ''fr'' @ str_int (n + 1)\<rparr>],
              metadata := (metadata s)(''last_user_id'' \<mapsto> n + 1),
              metadata_file := Some ((metadata s)(''last_user_id'' \<mapsto> n + 1)),
              calls := calls s @ [Call_uuid4, Call_save_metadata, Call_insert, Call_flush]\<rparr>)"
proof -
  have "metadata (log_call Call_uuid4 s) ''last_user_id'' = Some n"
    using assms(1) by (simp add: log_call_def)
  from get_next_human_id_step [OF this] assms(2) show ?thesis
    by (simp add: add_user_def collection_insert_def Let_def log_call_def)
qed

lemma add_user_rejected:
  assumes "metadata s ''last_user_id'' = Some n"
    and "\<not> accepts \<lparr>embedding = avg, user_uuid = uuid4, name = nm,
                     human_id = ''fr'' @ str_int (n + 1)\<rparr>"
  shows "add_user accepts nm avg uuid4 s =
           (Inl MilvusException,
            s\<lparr>metadata := (metadata s)(''last_user_id'' \<mapsto> n + 1),
              metadata_file := Some ((metadata s)(''last_user_id'' \<mapsto> n + 1)),
              calls := calls s @ [Call_uuid4, Call_save_metadata, Call_insert]\<rparr>)"
proof -
  have "metadata (log_call Call_uuid4 s) ''last_user_id'' = Some n"
    using assms(1) by (simp add: log_call_def)
  from get_next_human_id_step [OF this] assms(2) show ?thesis
    by (simp add: add_user_def collection_insert_def Let_def log_call_def)
qed

lemma add_user_no_key:
  assumes "metadata s ''last_user_id'' = None"
  shows "add_user accepts nm avg uuid4 s = (Inl (KeyError ''last_user_id''), log_call Call_uuid4 s)"
proof -
  have "metadata (log_call Call_uuid4 s) ''last_user_id'' = None"
    using assms by (simp add: log_call_def)
  from get_next_human_id_no_key [OF this] show ?thesis
    by (simp add: add_user_def Let_def)
qed

lemma api_register_all_embedded:
  assumes "form req ''name'' = Some nm" and "nm \<noteq> []"
    and "2 \<le> length (files req)" and "length (files req) \<le> 4"
    and "\<forall>f\<in>set (processed (files req)). get_face_embedding detect (stream f) \<noteq> None"
  shows "api_register detect accepts uuid4 req s =
           (if length (embeddings_of detect (files req)) < 2
            then (Inr fewer_response, s\<lparr>calls := calls s @ embedding_calls (files req)\<rparr>)
            else (case np_mean (embeddings_of detect (files req)) of
                    Inl e \<Rightarrow> (Inl e, s\<lparr>calls := calls s @ embedding_calls (files req)\<rparr>)
                  | Inr avg \<Rightarrow>
                      (case add_user accepts nm avg uuid4
                              (s\<lparr>calls := calls s @ embedding_calls (files req)\<rparr>) of
                         (Inl e, s2) \<Rightarrow> (Inl e, s2)
                       | (Inr (uid, hid), s2) \<Rightarrow> (Inr (registered_response nm uid hid), s2))))"
  using assms(1-4) register_loop_all_embedded [OF assms(5), of "[]" s]
  by (simp add: api_register_def Let_def fewer_response_def registered_response_def
      split: sum.splits prod.splits)

lemma api_register_invalid:
  assumes "form req ''name'' = None \<or> form req ''name'' = Some [] \<or>
           length (files req) < 2 \<or> 4 < length (files req)"
  shows "api_register detect accepts uuid4 req s =
           (Inr (jsonify [(''error'', JStr (if form req ''name'' = None \<or> form req ''name'' = Some []
               then ''Missing name''
               else ''Please upload between 2 and 4 images. You uploaded ''
                      @ str_int (int (length (files req))) @ ''.''))] 400), s)"
  using assms by (auto simp: api_register_def Let_def split: option.splits)

lemma api_register_accepted:
  assumes "form req ''name'' = Some nm" and "nm \<noteq> []"
    and "2 \<le> length (files req)" and "length (files req) \<le> 4"
    and "\<forall>f\<in>set (processed (files req)). get_face_embedding detect (stream f) \<noteq> None"
    and "2 \<le> length (processed (files req))"
    and "np_mean (embeddings_of detect (files req)) = Inr avg"
    and "metadata s ''last_user_id'' = Some n"
    and "accepts \<lparr>embedding = avg, user_uuid = uuid4, name = nm,
                   human_id = ''fr'' @ str_int (n + 1)\<rparr>"
  shows "api_register detect accepts uuid4 req s =
           (Inr (registered_response nm uuid4 (''fr'' @ str_int (n + 1))),
            s\<lparr>collection := collection s @
                 [\<lparr>embedding = avg, user_uuid = uuid4, name = nm,
                   human_id = ''fr'' @ str_int (n + 1)\<rparr>],
              metadata := (metadata s)(''last_user_id'' \<mapsto> n + 1),
              metadata_file := Some ((metadata s)(''last_user_id'' \<mapsto> n + 1)),
              calls := calls s @ embedding_calls (files req)
                         @ [Call_uuid4, Call_save_metadata, Call_insert, Call_flush]\<rparr>)"
proof -
  let ?s1 = "s\<lparr>calls := calls s @ embedding_calls (files req)\<rparr>"
  have two: "\<not> length (embeddings_of detect (files req)) < 2"
    using assms(6) length_embeddings_of [OF assms(5)] by simp
  have "metadata ?s1 ''last_user_id'' = Some n"
    using assms(8) by simp
  from add_user_accepted [where accepts = accepts, OF this assms(9)]
    api_register_all_embedded [OF assms(1-5), of accepts uuid4 s]
    two assms(7)
  show ?thesis by simp
qed

lemma api_register_rejected:
  assumes "form req ''name'' = Some nm" and "nm \<noteq> []"
    and "2 \<le> length (files req)" and "length (files req) \<le> 4"
    and "\<forall>f\<in>set (processed (files req)). get_face_embedding detect (stream f) \<noteq> None"
    and "2 \<le> length (processed (files req))"
    and "np_mean (embeddings_of detect (files req)) = Inr avg"
    and "metadata s ''last_user_id'' = Some n"
    and "\<not> accepts \<lparr>embedding = avg, user_uuid = uuid4, name = nm,
                     human_id = ''fr'' @ str_int (n + 1)\<rparr>"
  shows "api_register detect accepts uuid4 req s =
           (Inl MilvusException,
            s\<lparr>metadata := (metadata s)(''last_user_id'' \<mapsto> n + 1),
              metadata_file := Some ((metadata s)(''last_user_id'' \<mapsto> n + 1)),
              calls := calls s @ embedding_calls (files req)
                         @ [Call_uuid4, Call_save_metadata, Call_insert]\<rparr>)"
proof -
  let ?s1 = "s\<lparr>calls := calls s @ embedding_calls (files req)\<rparr>"
  have two: "\<not> length (embeddings_of detect (files req)) < 2"
    using assms(6) length_embeddings_of [OF assms(5)] by simp
  have "metadata ?s1 ''last_user_id'' = Some n"
    using assms(8) by simp
  from add_user_rejected [where accepts = accepts, OF this assms(9)]
    api_register_all_embedded [OF assms(1-5), of accepts uuid4 s]
    two assms(7)
  show ?thesis by simp
qed

lemma api_register_enrolls:
  assumes "form req ''name'' = Some nm" and "nm \<noteq> []"
    and "2 \<le> length (files req)" and "length (files req) \<le> 4"
    and "\<forall>f\<in>set (processed (files req)). get_face_embedding detect (stream f) \<noteq> None"
    and "2 \<le> length (processed (files req))"
    and "\<forall>e\<in>set (embeddings_of detect (files req)). length e = d"
    and "metadata s ''last_user_id'' = Some n"
    and "\<forall>v. length v = d \<longrightarrow>
           accepts \<lparr>embedding = v, user_uuid = uuid4, name = nm,
                     human_id = ''fr'' @ str_int (n + 1)\<rparr>"
  shows "\<exists>avg. np_mean (embeddings_of detect (files req)) = Inr avg \<and> length avg = d \<and>
           api_register detect accepts uuid4 req s =
             (Inr (registered_response nm uuid4 (''fr'' @ str_int (n + 1))),
              s\<lparr>collection := collection s @
                   [\<lparr>embedding = avg, user_uuid = uuid4, name = nm,
                     human_id = ''fr'' @ str_int (n + 1)\<rparr>],
                metadata := (metadata s)(''last_user_id'' \<mapsto> n + 1),
                metadata_file := Some ((metadata s)(''last_user_id'' \<mapsto> n + 1)),
                calls := calls s @ embedding_calls (files req)
                           @ [Call_uuid4, Call_save_metadata, Call_insert, Call_flush]\<rparr>)"
proof -
  let ?embs = "embeddings_of detect (files req)"
  have "length ?embs = length (processed (files req))"
    by (rule length_embeddings_of [OF assms(5)])
  with assms(6) have ne: "?embs \<noteq> []" by auto
  from np_mean_same_length [OF ne assms(7)] obtain avg where avg: "np_mean ?embs = Inr avg"
    by blast
  from np_mean_elementwise [OF avg] ne have "length (hd ?embs) = length avg"
    by simp
  moreover have "length (hd ?embs) = d"
    using ne assms(7) by simp
  ultimately have len: "length avg = d" by simp
  with assms(9) have ok: "accepts \<lparr>embedding = avg, user_uuid = uuid4, name = nm,
                                   human_id = ''fr'' @ str_int (n + 1)\<rparr>"
    by blast
  from api_register_accepted [where accepts = accepts, OF assms(1-6) avg assms(8) ok] avg len
  show ?thesis by blast
qed

text \<open>
  Every outcome of \<^verbatim>\<open>api_register\<close>: nothing but calls to the face model happened and no
  label is answered; or a row was appended and its label answered; or the label was
  allocated and saved and the engine then refused the row.
\<close>

lemma api_register_outcomes:
  "(issued (fst (api_register detect accepts uuid4 req s)) = [] \<and>
      (\<forall>resp. fst (api_register detect accepts uuid4 req s) = Inr resp \<longrightarrow> status resp = 400) \<and>
      collection (snd (api_register detect accepts uuid4 req s)) = collection s \<and>
      metadata (snd (api_register detect accepts uuid4 req s)) = metadata s \<and>
      metadata_file (snd (api_register detect accepts uuid4 req s)) = metadata_file s) \<or>
   (\<exists>nm n avg. form req ''name'' = Some nm \<and> nm \<noteq> [] \<and>
      2 \<le> length (files req) \<and> length (files req) \<le> 4 \<and>
      (\<forall>f\<in>set (processed (files req)). get_face_embedding detect (stream f) \<noteq> None) \<and>
      2 \<le> length (processed (files req)) \<and>
      np_mean (embeddings_of detect (files req)) = Inr avg \<and>
      metadata s ''last_user_id'' = Some n \<and>
      accepts \<lparr>embedding = avg, user_uuid = uuid4, name = nm,
                human_id = ''fr'' @ str_int (n + 1)\<rparr> \<and>
      api_register detect accepts uuid4 req s =
        (Inr (registered_response nm uuid4 (''fr'' @ str_int (n + 1))),
         s\<lparr>collection := collection s @
              [\<lparr>embedding = avg, user_uuid = uuid4, name = nm,
                human_id = ''fr'' @ str_int (n + 1)\<rparr>],
           metadata := (metadata s)(''last_user_id'' \<mapsto> n + 1),
           metadata_file := Some ((metadata s)(''last_user_id'' \<mapsto> n + 1)),
           calls := calls s @ embedding_calls (files req)
                      @ [Call_uuid4, Call_save_metadata, Call_insert, Call_flush]\<rparr>)) \<or>
   (\<exists>n. metadata s ''last_user_id'' = Some n \<and>
      api_register detect accepts uuid4 req s =
        (Inl MilvusException,
         s\<lparr>metadata := (metadata s)(''last_user_id'' \<mapsto> n + 1),
           metadata_file := Some ((metadata s)(''last_user_id'' \<mapsto> n + 1)),
           calls := calls s @ embedding_calls (files req)
                      @ [Call_uuid4, Call_save_metadata, Call_insert]\<rparr>))"
  (is "?same \<or> ?added \<or> ?refused")
proof (cases "form req ''name'' = None \<or> form req ''name'' = Some [] \<or>
              length (files req) < 2 \<or> 4 < length (files req)")
  case True
  from api_register_invalid [OF this, of detect accepts uuid4 s] have ?same
    by (simp add: jsonify_def)
  then show ?thesis ..
next
  case False
  then obtain nm where nm: "form req ''name'' = Some nm" "nm \<noteq> []"
    and cnt: "2 \<le> length (files req)" "length (files req) \<le> 4"
    by auto
  show ?thesis
  proof (cases "\<exists>f\<in>set (files req). filename f \<noteq> [] \<and> get_face_embedding detect (stream f) = None")
    case True
    from api_register_first_failure [OF nm cnt this, of accepts uuid4 s] have ?same
      by (auto simp: no_face_response_def jsonify_def)
    then show ?thesis ..
  next
    case False
    then have all: "\<forall>f\<in>set (processed (files req)). get_face_embedding detect (stream f) \<noteq> None"
      by (auto simp: processed_def)
    note eq = api_register_all_embedded [OF nm cnt all, of accepts uuid4 s]
    note len = length_embeddings_of [OF all]
    let ?s1 = "s\<lparr>calls := calls s @ embedding_calls (files req)\<rparr>"
    show ?thesis
    proof (cases "length (embeddings_of detect (files req)) < 2")
      case True
      with eq have ?same by (simp add: fewer_response_def jsonify_def)
      then show ?thesis ..
    next
      case long: False
      then have two: "2 \<le> length (processed (files req))"
        using len by simp
      show ?thesis
      proof (cases "np_mean (embeddings_of detect (files req))")
        case (Inl e)
        with eq long have ?same by simp
        then show ?thesis ..
      next
        case (Inr avg)
        show ?thesis
        proof (cases "metadata s ''last_user_id''")
          case None
          then have "metadata ?s1 ''last_user_id'' = None" by simp
          from add_user_no_key [OF this, of accepts nm avg uuid4] eq long Inr have ?same
            by (simp add: log_call_def)
          then show ?thesis ..
        next
          case (Some n)
          show ?thesis
          proof (cases "accepts \<lparr>embedding = avg, user_uuid = uuid4, name = nm,
                                 human_id = ''fr'' @ str_int (n + 1)\<rparr>")
            case True
            from api_register_accepted [where accepts = accepts, OF nm cnt all two Inr Some True]
              nm cnt all two Inr Some True
            have ?added by blast
            then show ?thesis by blast
          next
            case False
            from api_register_rejected [where accepts = accepts, OF nm cnt all two Inr Some False] Some
            have ?refused by blast
            then show ?thesis by blast
          qed
        qed
      qed
    qed
  qed
qed

lemma api_register_success:
  assumes "api_register detect accepts uuid4 req s = (Inr resp, s')" and "status resp = 201"
  shows "\<exists>nm n avg.
           form req ''name'' = Some nm \<and> nm \<noteq> [] \<and>
           2 \<le> length (files req) \<and> length (files req) \<le> 4 \<and>
           (\<forall>f\<in>set (processed (files req)). get_face_embedding detect (stream f) \<noteq> None) \<and>
           2 \<le> length (processed (files req)) \<and>
           np_mean (embeddings_of detect (files req)) = Inr avg \<and>
           metadata s ''last_user_id'' = Some n \<and>
           accepts \<lparr>embedding = avg, user_uuid = uuid4, name = nm,
                     human_id = ''fr'' @ str_int (n + 1)\<rparr> \<and>
           resp = registered_response nm uuid4 (''fr'' @ str_int (n + 1)) \<and>
           s' = s\<lparr>collection := collection s @
                    [\<lparr>embedding = avg, user_uuid = uuid4, name = nm,
                      human_id = ''fr'' @ str_int (n + 1)\<rparr>],
                  metadata := (metadata s)(''last_user_id'' \<mapsto> n + 1),
                  metadata_file := Some ((metadata s)(''last_user_id'' \<mapsto> n + 1)),
                  calls := calls s @ embedding_calls (files req)
                             @ [Call_uuid4, Call_save_metadata, Call_insert, Call_flush]\<rparr>"
proof -
  have fst_eq: "fst (api_register detect accepts uuid4 req s) = Inr resp"
    by (simp add: assms(1))
  from api_register_outcomes [of detect accepts uuid4 req s]
  show ?thesis
  proof (elim disjE exE conjE)
    assume "\<forall>resp. fst (api_register detect accepts uuid4 req s) = Inr resp \<longrightarrow> status resp = 400"
    with fst_eq assms(2) show ?thesis by simp
  next
    fix nm n avg
    assume "api_register detect accepts uuid4 req s =
        (Inr (registered_response nm uuid4 (''fr'' @ str_int (n + 1))),
         s\<lparr>collection := collection s @
              [\<lparr>embedding = avg, user_uuid = uuid4, name = nm,
                human_id = ''fr'' @ str_int (n + 1)\<rparr>],
           metadata := (metadata s)(''last_user_id'' \<mapsto> n + 1),
           metadata_file := Some ((metadata s)(''last_user_id'' \<mapsto> n + 1)),
           calls := calls s @ embedding_calls (files req)
                      @ [Call_uuid4, Call_save_metadata, Call_insert, Call_flush]\<rparr>)"
    with assms(1) have "resp = registered_response nm uuid4 (''fr'' @ str_int (n + 1))"
      and "s' = s\<lparr>collection := collection s @
                    [\<lparr>embedding = avg, user_uuid = uuid4, name = nm,
                      human_id = ''fr'' @ str_int (n + 1)\<rparr>],
                  metadata := (metadata s)(''last_user_id'' \<mapsto> n + 1),
                  metadata_file := Some ((metadata s)(''last_user_id'' \<mapsto> n + 1)),
                  calls := calls s @ embedding_calls (files req)
                             @ [Call_uuid4, Call_save_metadata, Call_insert, Call_flush]\<rparr>"
      by simp_all
    moreover assume "form req ''name'' = Some nm" "nm \<noteq> []"
      "2 \<le> length (files req)" "length (files req) \<le> 4"
      "\<forall>f\<in>set (processed (files req)). get_face_embedding detect (stream f) \<noteq> None"
      "2 \<le> length (processed (files req))"
      "np_mean (embeddings_of detect (files req)) = Inr avg"
      "metadata s ''last_user_id'' = Some n"
      "accepts \<lparr>embedding = avg, user_uuid = uuid4, name = nm,
                human_id = ''fr'' @ str_int (n + 1)\<rparr>"
    ultimately show ?thesis by blast
  next
    fix n
    assume "api_register detect accepts uuid4 req s =
        (Inl MilvusException,
         s\<lparr>metadata := (metadata s)(''last_user_id'' \<mapsto> n + 1),
           metadata_file := Some ((metadata s)(''last_user_id'' \<mapsto> n + 1)),
           calls := calls s @ embedding_calls (files req)
                      @ [Call_uuid4, Call_save_metadata, Call_insert]\<rparr>)"
    with assms(1) show ?thesis by simp
  qed
qed

lemma delete_user_always_raises:
  "fst (delete_user matches uuid s) = Inl (AttributeError ''delete_coun'')"
  by (simp add: delete_user_def collection_delete_def mutation_result_getattr_def Let_def)

subsection \<open>Helper facts: what each handler does to the state\<close>

lemma api_authenticate_effect:
  "collection (snd (api_authenticate detect metric req s)) = collection s \<and>
   metadata (snd (api_authenticate detect metric req s)) = metadata s \<and>
   metadata_file (snd (api_authenticate detect metric req s)) = metadata_file s"
  by (simp add: api_authenticate_def find_similar_user_def log_call_def Let_def
      split: list.split option.split prod.split)

lemma delete_user_page_effect:
  "set (collection (snd (delete_user_page matches uuid s))) \<subseteq> set (collection s) \<and>
   metadata (snd (delete_user_page matches uuid s)) = metadata s \<and>
   metadata_file (snd (delete_user_page matches uuid s)) = metadata_file s"
  by (auto simp: delete_user_page_def delete_user_def collection_delete_def log_call_def Let_def
      split: prod.split sum.split)

lemma reachable_names:
  "reachable s \<Longrightarrow> \<forall>r\<in>set (collection s). name r \<noteq> []"
proof (induction rule: reachable.induct)
  case (reachable_fresh s)
  then show ?case by simp
next
  case (reachable_restart s)
  then show ?case by (simp add: init_milvus_def)
next
  case (reachable_register s detect accepts uuid4 req)
  from api_register_outcomes [of detect accepts uuid4 req s] reachable_register.IH
  show ?case by (elim disjE exE conjE) simp_all
next
  case (reachable_authenticate s detect metric req)
  then show ?case by (simp add: api_authenticate_effect)
next
  case (reachable_delete s matches uuid)
  then show ?case using delete_user_page_effect [of matches uuid s] by blast
qed

lemma find_similar_user_fst_collection:
  "collection s1 = collection s \<Longrightarrow>
   fst (find_similar_user metric q t s1) = fst (find_similar_user metric q t s)"
  by (simp add: find_similar_user_def Let_def split: list.split)

lemma find_similar_user_match_row:
  assumes "fst (find_similar_user metric q t s) = m" and "m \<noteq> no_match"
  shows "\<exists>r\<in>set (collection s).
           m = (Some (user_uuid r), Some (name r), Some (human_id r), Some (metric q (embedding r)))"
proof (cases "collection s = []")
  case True
  with assms find_similar_user_empty [OF True, of metric q t] show ?thesis by simp
next
  case False
  from find_similar_user_nearest [OF False, of metric q t] assms show ?thesis
    by (auto split: if_splits)
qed


subsection \<open>Helper facts: evaluation on the concrete instances\<close>

lemma str_int_1: "str_int 1 = ''1''"
  by (simp add: str_int_def str_nat.simps digit_char_def)

lemma str_int_2: "str_int 2 = ''2''"
  by (simp add: str_int_def str_nat.simps digit_char_def)

lemma str_int_3: "str_int 3 = ''3''"
  by (simp add: str_int_def str_nat.simps digit_char_def)

lemma demo_detect_embedding:
  "take 1 b = ''F'' \<Longrightarrow>
   get_face_embedding demo_detect (stream (photo fname b)) =
     Some (replicate EMBEDDING_DIMENSION (real (length b)))"
  by (simp add: get_face_embedding_def demo_detect_def photo_def)

lemma demo_detect_no_face:
  "get_face_embedding demo_detect (stream (photo fname ''sky'')) = None"
  by (simp add: get_face_embedding_def demo_detect_def photo_def)

lemma np_mean_two_constant:
  "np_mean [replicate n a, replicate n b] = Inr (replicate n ((a + b) / 2))"
  by (simp add: np_mean_def np_add_def)

lemma processed_alice:
  "processed (files alice_request) = [photo ''a1.jpg'' ''F'', photo ''a2.jpg'' ''FFF'']"
  by (simp add: processed_def alice_request_def photo_def)

lemma alice_embeddings:
  "embeddings_of demo_detect (files alice_request) =
     [replicate EMBEDDING_DIMENSION 1, replicate EMBEDDING_DIMENSION 3]"
  by (simp add: embeddings_of_def processed_alice List.map_filter_simps demo_detect_embedding)

lemma alice_enrolled:
  "api_register demo_detect schema_accepts ''uuid-A'' alice_request fresh_state =
     (Inr (registered_response ''Alice'' ''uuid-A'' ''fr1''), alice_state)"
proof -
  have nm: "form alice_request ''name'' = Some ''Alice''" and ne: "''Alice'' \<noteq> []"
    and c2: "2 \<le> length (files alice_request)" and c4: "length (files alice_request) \<le> 4"
    by (simp_all add: alice_request_def)
  have all: "\<forall>f\<in>set (processed (files alice_request)).
               get_face_embedding demo_detect (stream f) \<noteq> None"
    by (simp add: processed_alice demo_detect_embedding)
  have two: "2 \<le> length (processed (files alice_request))"
    by (simp add: processed_alice)
  have avg: "np_mean (embeddings_of demo_detect (files alice_request)) =
               Inr (replicate EMBEDDING_DIMENSION 2)"
    by (simp add: alice_embeddings np_mean_two_constant)
  have key: "metadata fresh_state ''last_user_id'' = Some 0"
    by (simp add: fresh_state_def)
  have ok: "schema_accepts \<lparr>embedding = replicate EMBEDDING_DIMENSION 2, user_uuid = ''uuid-A'',
                             name = ''Alice'', human_id = ''fr'' @ str_int (0 + 1)\<rparr>"
    by (simp add: schema_accepts_def str_int_1)
  from api_register_accepted [where accepts = schema_accepts, OF nm ne c2 c4 all two avg key ok]
  show ?thesis
    by (simp add: str_int_1 fresh_state_def alice_state_def embedding_calls_def processed_alice)
      (simp add: photo_def)
qed

lemma reachable_alice_state: "reachable alice_state"
proof -
  have "reachable fresh_state"
    by (rule reachable_fresh) (simp add: fresh_state_def)
  from reachable_register [OF this, of demo_detect schema_accepts "''uuid-A''" alice_request]
  show ?thesis by (simp add: alice_enrolled)
qed

lemma l2_distance_same:
  "l2_distance (replicate EMBEDDING_DIMENSION 2) (replicate EMBEDDING_DIMENSION 2) = 0"
  by (simp add: l2_distance_def sum_list_replicate)

lemma alice_found:
  "fst (find_similar_user l2_distance (replicate EMBEDDING_DIMENSION 2) DISTANCE_THRESHOLD
          alice_state) =
     (Some ''uuid-A'', Some ''Alice'', Some ''fr1'', Some 0)"
  by (simp add: find_similar_user_def collection_search_def alice_state_def hit_of_def
      row_field_def l2_distance_same DISTANCE_THRESHOLD_def Let_def)

text \<open>
  A name of 256 bytes passes the validation of \<^verbatim>\<open>api_register\<close> and is refused by the
  schema: the label \<^verbatim>\<open>fr2\<close> is allocated and saved, no row is inserted, and the request
  ends in an exception. The next enrollment gets \<^verbatim>\<open>fr3\<close>.
\<close>

lemma processed_long_name:
  "processed (files long_name_request) = [photo ''n1.jpg'' ''FF'', photo ''n2.jpg'' ''FFFF'']"
  by (simp add: processed_def long_name_request_def photo_def)

lemma long_name_refused:
  "api_register demo_detect schema_accepts ''uuid-N'' long_name_request alice_state =
     (Inl MilvusException,
      alice_state\<lparr>metadata := [''last_user_id'' \<mapsto> 2],
                  metadata_file := Some [''last_user_id'' \<mapsto> 2],
                  calls := calls alice_state @
                    [Call_get_face_embedding ''FF'', Call_get_face_embedding ''FFFF'',
                     Call_uuid4, Call_save_metadata, Call_insert]\<rparr>)"
proof -
  have nm: "form long_name_request ''name'' = Some long_name" and ne: "long_name \<noteq> []"
    and c2: "2 \<le> length (files long_name_request)" and c4: "length (files long_name_request) \<le> 4"
    by (simp_all add: long_name_request_def long_name_def)
  have all: "\<forall>f\<in>set (processed (files long_name_request)).
               get_face_embedding demo_detect (stream f) \<noteq> None"
    by (simp add: processed_long_name demo_detect_embedding)
  have two: "2 \<le> length (processed (files long_name_request))"
    by (simp add: processed_long_name)
  have avg: "np_mean (embeddings_of demo_detect (files long_name_request)) =
               Inr (replicate EMBEDDING_DIMENSION 3)"
    by (simp add: embeddings_of_def processed_long_name List.map_filter_simps
        demo_detect_embedding np_mean_two_constant)
  have key: "metadata alice_state ''last_user_id'' = Some 1"
    by (simp add: alice_state_def)
  have no: "\<not> schema_accepts \<lparr>embedding = replicate EMBEDDING_DIMENSION 3, user_uuid = ''uuid-N'',
                               name = long_name, human_id = ''fr'' @ str_int (1 + 1)\<rparr>"
    by (simp add: schema_accepts_def long_name_def)
  from api_register_rejected [where accepts = schema_accepts, OF nm ne c2 c4 all two avg key no]
  show ?thesis
    by (simp add: alice_state_def embedding_calls_def processed_long_name) (simp add: photo_def)
qed

lemma processed_bob:
  "processed (files bob_request) = [photo ''b1.jpg'' ''FFFF'', photo ''b2.jpg'' ''FFFFFF'']"
  by (simp add: processed_def bob_request_def photo_def)

lemma bob_enrolled_third:
  "fst (api_register demo_detect schema_accepts ''uuid-B'' bob_request
          (init_milvus (snd (api_register demo_detect schema_accepts ''uuid-N''
                               long_name_request alice_state)))) =
     Inr (registered_response ''Bob'' ''uuid-B'' ''fr3'')"
proof -
  let ?s = "init_milvus (snd (api_register demo_detect schema_accepts ''uuid-N''
                                long_name_request alice_state))"
  have nm: "form bob_request ''name'' = Some ''Bob''" and ne: "''Bob'' \<noteq> []"
    and c2: "2 \<le> length (files bob_request)" and c4: "length (files bob_request) \<le> 4"
    by (simp_all add: bob_request_def)
  have all: "\<forall>f\<in>set (processed (files bob_request)).
               get_face_embedding demo_detect (stream f) \<noteq> None"
    by (simp add: processed_bob demo_detect_embedding)
  have two: "2 \<le> length (processed (files bob_request))"
    by (simp add: processed_bob)
  have avg: "np_mean (embeddings_of demo_detect (files bob_request)) =
               Inr (replicate EMBEDDING_DIMENSION 5)"
    by (simp add: embeddings_of_def processed_bob List.map_filter_simps
        demo_detect_embedding np_mean_two_constant)
  have key: "metadata ?s ''last_user_id'' = Some 2"
    by (simp add: long_name_refused init_milvus_def)
  have ok: "schema_accepts \<lparr>embedding = replicate EMBEDDING_DIMENSION 5, user_uuid = ''uuid-B'',
                             name = ''Bob'', human_id = ''fr'' @ str_int (2 + 1)\<rparr>"
    by (simp add: schema_accepts_def str_int_3)
  from api_register_accepted [where accepts = schema_accepts, OF nm ne c2 c4 all two avg key ok]
  show ?thesis
    by (simp add: str_int_3)
qed

lemma processed_unnamed_file:
  "processed (files unnamed_file_request) = [photo ''a1.jpg'' ''F'', photo ''a2.jpg'' ''FFF'']"
  by (simp add: processed_def unnamed_file_request_def photo_def)

lemma processed_unnamed_and_one:
  "processed (files unnamed_and_one_request) = [photo ''a1.jpg'' ''F'']"
  by (simp add: processed_def unnamed_and_one_request_def photo_def)

lemma processed_unnamed_and_blank:
  "processed (files unnamed_and_blank_request) =
     [photo ''c1.jpg'' ''F'', photo ''c2.jpg'' ''sky'', photo ''c3.jpg'' ''FF'']"
  by (simp add: processed_def unnamed_and_blank_request_def photo_def)

lemma unnamed_and_blank_embeddings:
  "embeddings_of demo_detect (files unnamed_and_blank_request) =
     [replicate EMBEDDING_DIMENSION 1, replicate EMBEDDING_DIMENSION 2]"
  by (simp add: embeddings_of_def processed_unnamed_and_blank List.map_filter_simps
      demo_detect_embedding demo_detect_no_face)

lemma unnamed_and_blank_refused:
  "api_register demo_detect schema_accepts ''uuid-C'' unnamed_and_blank_request fresh_state =
     (Inr (no_face_response ''c2.jpg''),
      fresh_state\<lparr>calls := [Call_get_face_embedding ''F'', Call_get_face_embedding ''sky'']\<rparr>)"
  by (simp add: api_register_def unnamed_and_blank_request_def fresh_state_def photo_def
      get_face_embedding_def demo_detect_def log_call_def Let_def)

subsection \<open>Helper facts: labels and runs\<close>

lemma digit_val_digit_char: "d < 10 \<Longrightarrow> digit_val (digit_char d) = d"
proof -
  assume "d < 10"
  then have "d \<in> {0, 1, 2, 3, 4, 5, 6, 7, 8, 9}" by auto
  then show ?thesis
    by (auto simp: digit_val_def digit_char_def)
qed

lemma digit_char_not_minus: "d < 10 \<Longrightarrow> digit_char d \<noteq> CHR ''-''"
proof -
  assume "d < 10"
  then have "d \<in> {0, 1, 2, 3, 4, 5, 6, 7, 8, 9}" by auto
  then show ?thesis
    by (auto simp: digit_char_def)
qed

lemma nat_of_str_snoc: "nat_of_str (cs @ [c]) = 10 * nat_of_str cs + digit_val c"
  by (simp add: nat_of_str_def)

lemma nat_of_str_str_nat: "nat_of_str (str_nat n) = n"
proof (induction n rule: str_nat.induct)
  case (1 n)
  show ?case
  proof (cases "n < 10")
    case True
    then show ?thesis
      by (simp add: str_nat.simps [of n] nat_of_str_def digit_val_digit_char)
  next
    case False
    with "1.IH" have "nat_of_str (str_nat (n div 10)) = n div 10" by simp
    with False show ?thesis
      by (simp add: str_nat.simps [of n] nat_of_str_snoc digit_val_digit_char)
  qed
qed

lemma str_nat_head: "\<exists>c cs. str_nat n = c # cs \<and> c \<noteq> CHR ''-''"
proof (induction n rule: str_nat.induct)
  case (1 n)
  show ?case
  proof (cases "n < 10")
    case True
    then show ?thesis
      by (simp add: str_nat.simps [of n] digit_char_not_minus)
  next
    case False
    with "1.IH" obtain c cs where "str_nat (n div 10) = c # cs" "c \<noteq> CHR ''-''" by blast
    with False show ?thesis
      by (simp add: str_nat.simps [of n])
  qed
qed

lemma int_of_str_str_int: "int_of_str (str_int i) = i"
proof (cases "i < 0")
  case True
  then show ?thesis
    by (simp add: str_int_def int_of_str_def nat_of_str_str_nat)
next
  case False
  obtain c cs where eq: "str_nat (nat i) = c # cs" and c: "c \<noteq> CHR ''-''"
    using str_nat_head by blast
  have "nat_of_str (c # cs) = nat i"
    using nat_of_str_str_nat [of "nat i"] by (simp add: eq)
  with False c show ?thesis
    by (simp add: str_int_def int_of_str_def eq)
qed

lemma label_number_fr: "label_number (''fr'' @ str_int i) = i"
  by (simp add: label_number_def int_of_str_str_int)

lemma init_milvus_idem: "init_milvus (init_milvus s) = init_milvus s"
  by (simp add: init_milvus_def)

lemma init_milvus_fixed:
  assumes "init_milvus s = s" and "metadata s' = metadata s"
    and "metadata_file s' = metadata_file s"
  shows "init_milvus s' = s'"
proof -
  have "metadata (init_milvus s) = metadata s"
    using assms(1) by simp
  then have "metadata s' = (case metadata_file s' of Some m \<Rightarrow> m | None \<Rightarrow> [''last_user_id'' \<mapsto> 0])"
    using assms(2,3) by (simp add: init_milvus_def)
  then show ?thesis
    by (simp add: init_milvus_def)
qed

lemma init_milvus_after_save:
  assumes "metadata_file s' = Some (metadata s')"
  shows "init_milvus s' = s'"
  using assms by (simp add: init_milvus_def)

lemma issued_registered: "issued (Inr (registered_response nm uid hid)) = [hid]"
  by (simp add: registered_response_def jsonify_def)

lemma run_Register_fst:
  "fst (run detect accepts metric matches (Register uuid4 req # es) s) =
     issued (fst (api_register detect accepts uuid4 req s)) @
       fst (run detect accepts metric matches es (snd (api_register detect accepts uuid4 req s)))"
  by (simp split: prod.split)

lemma run_Register_snd:
  "snd (run detect accepts metric matches (Register uuid4 req # es) s) =
     snd (run detect accepts metric matches es (snd (api_register detect accepts uuid4 req s)))"
  by (simp split: prod.split)

text \<open>
  The labels of a run, from a state whose counter \<open>n\<close> is the one a restart would load:
  their numbers increase strictly, lie above \<open>n\<close> and at most at the final counter, which
  has advanced by at least their number.
\<close>

lemma run_labels:
  assumes "init_milvus s = s" and "metadata s ''last_user_id'' = Some n"
  shows "\<exists>ms c. fst (run detect accepts metric matches es s) = map (\<lambda>m. ''fr'' @ str_int m) ms \<and>
           sorted_wrt (<) ms \<and> (\<forall>m\<in>set ms. n < m \<and> m \<le> c) \<and>
           metadata (snd (run detect accepts metric matches es s)) ''last_user_id'' = Some c \<and>
           n + int (length ms) \<le> c \<and>
           init_milvus (snd (run detect accepts metric matches es s)) =
             snd (run detect accepts metric matches es s)"
  using assms
proof (induction es arbitrary: s n)
  case Nil
  then have "fst (run detect accepts metric matches [] s) = map (\<lambda>m. ''fr'' @ str_int m) [] \<and>
           sorted_wrt (<) ([] :: int list) \<and> (\<forall>m\<in>set []. n < m \<and> m \<le> n) \<and>
           metadata (snd (run detect accepts metric matches [] s)) ''last_user_id'' = Some n \<and>
           n + int (length ([] :: int list)) \<le> n \<and>
           init_milvus (snd (run detect accepts metric matches [] s)) =
             snd (run detect accepts metric matches [] s)"
    by simp
  then show ?case by (intro exI [of _ "[]"] exI [of _ n])
next
  case (Cons e es)
  show ?case
  proof (cases e)
    case (Register uuid4 req)
    let ?s1 = "snd (api_register detect accepts uuid4 req s)"
    let ?res = "fst (api_register detect accepts uuid4 req s)"
    have run_fst: "fst (run detect accepts metric matches (e # es) s) =
                     issued ?res @ fst (run detect accepts metric matches es ?s1)"
      and run_snd: "snd (run detect accepts metric matches (e # es) s) =
                     snd (run detect accepts metric matches es ?s1)"
      unfolding Register by (rule run_Register_fst, rule run_Register_snd)
    from api_register_outcomes [of detect accepts uuid4 req s]
    show ?thesis
    proof (elim disjE exE conjE)
      assume iss: "issued ?res = []"
        and same: "metadata ?s1 = metadata s" "metadata_file ?s1 = metadata_file s"
      have fixed: "init_milvus ?s1 = ?s1"
        by (rule init_milvus_fixed [OF Cons.prems(1) same])
      have key: "metadata ?s1 ''last_user_id'' = Some n"
        using same Cons.prems(2) by simp
      from Cons.IH [OF fixed key] show ?thesis
        unfolding run_fst run_snd iss by simp
    next
      fix nm m avg
      assume m: "metadata s ''last_user_id'' = Some m"
        and eq: "api_register detect accepts uuid4 req s =
          (Inr (registered_response nm uuid4 (''fr'' @ str_int (m + 1))),
           s\<lparr>collection := collection s @
                [\<lparr>embedding = avg, user_uuid = uuid4, name = nm,
                  human_id = ''fr'' @ str_int (m + 1)\<rparr>],
             metadata := (metadata s)(''last_user_id'' \<mapsto> m + 1),
             metadata_file := Some ((metadata s)(''last_user_id'' \<mapsto> m + 1)),
             calls := calls s @ embedding_calls (files req)
                        @ [Call_uuid4, Call_save_metadata, Call_insert, Call_flush]\<rparr>)"
      have mn: "m = n" using m Cons.prems(2) by simp
      have fixed: "init_milvus ?s1 = ?s1"
        by (rule init_milvus_after_save) (simp add: eq)
      have key: "metadata ?s1 ''last_user_id'' = Some (n + 1)"
        by (simp add: eq mn)
      have iss: "issued ?res = [''fr'' @ str_int (n + 1)]"
        unfolding eq mn fst_conv by (rule issued_registered)
      from Cons.IH [OF fixed key] obtain ms c
        where rest: "fst (run detect accepts metric matches es ?s1) =
                       map (\<lambda>m. ''fr'' @ str_int m) ms"
          and sorted: "sorted_wrt (<) ms"
          and bounds: "\<forall>m\<in>set ms. n + 1 < m \<and> m \<le> c"
          and cnt: "metadata (snd (run detect accepts metric matches es ?s1)) ''last_user_id'' =
                       Some c"
          and adv: "n + 1 + int (length ms) \<le> c"
          and fix': "init_milvus (snd (run detect accepts metric matches es ?s1)) =
                       snd (run detect accepts metric matches es ?s1)"
        by blast
      have "fst (run detect accepts metric matches (e # es) s) =
              map (\<lambda>m. ''fr'' @ str_int m) ((n + 1) # ms)"
        unfolding run_fst iss rest by simp
      moreover have "sorted_wrt (<) ((n + 1) # ms)"
        using sorted bounds by simp
      moreover have "\<forall>m\<in>set ((n + 1) # ms). n < m \<and> m \<le> c"
        using bounds adv by auto
      moreover have "metadata (snd (run detect accepts metric matches (e # es) s))
                       ''last_user_id'' = Some c"
        unfolding run_snd by (rule cnt)
      moreover have "n + int (length ((n + 1) # ms)) \<le> c"
        using adv by simp
      moreover have "init_milvus (snd (run detect accepts metric matches (e # es) s)) =
              snd (run detect accepts metric matches (e # es) s)"
        unfolding run_snd by (rule fix')
      ultimately show ?thesis by blast
    next
      fix m
      assume m: "metadata s ''last_user_id'' = Some m"
        and eq: "api_register detect accepts uuid4 req s =
          (Inl MilvusException,
           s\<lparr>metadata := (metadata s)(''last_user_id'' \<mapsto> m + 1),
             metadata_file := Some ((metadata s)(''last_user_id'' \<mapsto> m + 1)),
             calls := calls s @ embedding_calls (files req)
                        @ [Call_uuid4, Call_save_metadata, Call_insert]\<rparr>)"
      have mn: "m = n" using m Cons.prems(2) by simp
      have fixed: "init_milvus ?s1 = ?s1"
        by (rule init_milvus_after_save) (simp add: eq)
      have key: "metadata ?s1 ''last_user_id'' = Some (n + 1)"
        by (simp add: eq mn)
      have iss: "issued ?res = []"
        by (simp add: eq)
      from Cons.IH [OF fixed key] obtain ms c
        where rest: "fst (run detect accepts metric matches es ?s1) =
                       map (\<lambda>m. ''fr'' @ str_int m) ms"
          and sorted: "sorted_wrt (<) ms"
          and bounds: "\<forall>m\<in>set ms. n + 1 < m \<and> m \<le> c"
          and cnt: "metadata (snd (run detect accepts metric matches es ?s1)) ''last_user_id'' =
                       Some c"
          and adv: "n + 1 + int (length ms) \<le> c"
          and fix': "init_milvus (snd (run detect accepts metric matches es ?s1)) =
                       snd (run detect accepts metric matches es ?s1)"
        by blast
      have "fst (run detect accepts metric matches (e # es) s) =
              map (\<lambda>m. ''fr'' @ str_int m) ms"
        unfolding run_fst iss rest by simp
      moreover have "\<forall>m\<in>set ms. n < m \<and> m \<le> c"
        using bounds by auto
      moreover have "metadata (snd (run detect accepts metric matches (e # es) s))
                       ''last_user_id'' = Some c"
        unfolding run_snd by (rule cnt)
      moreover have "n + int (length ms) \<le> c"
        using adv by simp
      moreover have "init_milvus (snd (run detect accepts metric matches (e # es) s)) =
              snd (run detect accepts metric matches (e # es) s)"
        unfolding run_snd by (rule fix')
      ultimately show ?thesis using sorted by blast
    qed
  next
    case (Authenticate req)
    let ?s1 = "snd (api_authenticate detect metric req s)"
    have fixed: "init_milvus ?s1 = ?s1"
      by (rule init_milvus_fixed [OF Cons.prems(1)]) (simp_all add: api_authenticate_effect)
    have key: "metadata ?s1 ''last_user_id'' = Some n"
      using Cons.prems(2) by (simp add: api_authenticate_effect)
    have "run detect accepts metric matches (e # es) s = run detect accepts metric matches es ?s1"
      by (simp add: Authenticate)
    with Cons.IH [OF fixed key] show ?thesis by (simp only:)
  next
    case (Delete uuid)
    let ?s1 = "snd (delete_user_page matches uuid s)"
    have fixed: "init_milvus ?s1 = ?s1"
      by (rule init_milvus_fixed [OF Cons.prems(1)]) (simp_all add: delete_user_page_effect)
    have key: "metadata ?s1 ''last_user_id'' = Some n"
      using Cons.prems(2) by (simp add: delete_user_page_effect)
    have "run detect accepts metric matches (e # es) s = run detect accepts metric matches es ?s1"
      by (simp add: Delete)
    with Cons.IH [OF fixed key] show ?thesis by (simp only:)
  next
    case Restart
    have "run detect accepts metric matches (e # es) s = run detect accepts metric matches es s"
      using Cons.prems(1) by (simp add: Restart)
    with Cons.IH [OF Cons.prems] show ?thesis by (simp only:)
  qed
qed

lemma label_numbers:
  "map label_number (map (\<lambda>m. ''fr'' @ str_int m) ms) = ms"
  by (induction ms) (simp_all add: label_number_def int_of_str_str_int)

lemma alice_refused_bob:
  "fst (run demo_detect schema_accepts l2_distance uuid_filter
          [Register ''uuid-A'' alice_request, Register ''uuid-N'' long_name_request, Restart,
           Register ''uuid-B'' bob_request]
          fresh_state) = [''fr1'', ''fr3'']"
proof -
  have refused: "fst (api_register demo_detect schema_accepts ''uuid-N'' long_name_request
                        alice_state) = Inl MilvusException"
    by (simp add: long_name_refused)
  show ?thesis
    by (simp add: run_Register_fst alice_enrolled refused bob_enrolled_third issued_registered
        del: run.simps(2) issued.simps(2))
qed

subsection \<open>Enrollment: the stored signature\<close>

text \<open>
  C1. A valid enrollment with k embeddable images stores their mean. A request with a
  name and 2 to 4 files, whose k files with a file name all yield embeddings of one
  dimension d, with 2 \<le> k, is answered with status 201, the counter being present and
  the engine accepting rows of dimension d for this uuid, name and label; the one row
  appended then holds a vector of dimension d, each component of which is the sum of the k
  embeddings' components divided by k. And every enrollment answered with status 201 has
  appended one row whose embedding is that mean of the k collected embeddings, k between 2
  and 4. Float arithmetic is taken as exact.
\<close>

theorem api_register_stores_mean:
  "(form req ''name'' = Some nm \<and> nm \<noteq> [] \<and>
    2 \<le> length (files req) \<and> length (files req) \<le> 4 \<and>
    (\<forall>f\<in>set (processed (files req)). get_face_embedding detect (stream f) \<noteq> None) \<and>
    2 \<le> length (processed (files req)) \<and>
    (\<forall>e\<in>set (embeddings_of detect (files req)). length e = d) \<and>
    metadata s ''last_user_id'' = Some n \<and>
    (\<forall>v. length v = d \<longrightarrow>
       accepts \<lparr>embedding = v, user_uuid = uuid4, name = nm,
                 human_id = ''fr'' @ str_int (n + 1)\<rparr>) \<longrightarrow>
    (\<exists>avg s'.
       api_register detect accepts uuid4 req s =
         (Inr (registered_response nm uuid4 (''fr'' @ str_int (n + 1))), s') \<and>
       collection s' = collection s @
         [\<lparr>embedding = avg, user_uuid = uuid4, name = nm,
           human_id = ''fr'' @ str_int (n + 1)\<rparr>] \<and>
       length (embeddings_of detect (files req)) = length (processed (files req)) \<and>
       length avg = d \<and>
       (\<forall>i<d. avg ! i =
          (\<Sum>e\<leftarrow>embeddings_of detect (files req). e ! i)
            / real (length (embeddings_of detect (files req)))))) \<and>
   (\<forall>resp s'.
      api_register detect accepts uuid4 req s = (Inr resp, s') \<and> status resp = 201 \<longrightarrow>
      (\<exists>r. collection s' = collection s @ [r] \<and>
         length (embeddings_of detect (files req)) = length (processed (files req)) \<and>
         2 \<le> length (embeddings_of detect (files req)) \<and>
         length (embeddings_of detect (files req)) \<le> 4 \<and>
         (\<forall>e\<in>set (embeddings_of detect (files req)). length e = length (embedding r)) \<and>
         (\<forall>i<length (embedding r).
            embedding r ! i =
              (\<Sum>e\<leftarrow>embeddings_of detect (files req). e ! i)
                / real (length (embeddings_of detect (files req))))))"
proof (intro conjI impI allI)
  let ?embs = "embeddings_of detect (files req)"
  assume a: "form req ''name'' = Some nm \<and> nm \<noteq> [] \<and>
    2 \<le> length (files req) \<and> length (files req) \<le> 4 \<and>
    (\<forall>f\<in>set (processed (files req)). get_face_embedding detect (stream f) \<noteq> None) \<and>
    2 \<le> length (processed (files req)) \<and>
    (\<forall>e\<in>set (embeddings_of detect (files req)). length e = d) \<and>
    metadata s ''last_user_id'' = Some n \<and>
    (\<forall>v. length v = d \<longrightarrow>
       accepts \<lparr>embedding = v, user_uuid = uuid4, name = nm,
                 human_id = ''fr'' @ str_int (n + 1)\<rparr>)"
  then have nm: "form req ''name'' = Some nm" and ne: "nm \<noteq> []"
    and c2: "2 \<le> length (files req)" and c4: "length (files req) \<le> 4"
    and all: "\<forall>f\<in>set (processed (files req)). get_face_embedding detect (stream f) \<noteq> None"
    and two: "2 \<le> length (processed (files req))"
    and dims: "\<forall>e\<in>set ?embs. length e = d"
    and key: "metadata s ''last_user_id'' = Some n"
    and ok: "\<forall>v. length v = d \<longrightarrow>
       accepts \<lparr>embedding = v, user_uuid = uuid4, name = nm,
                 human_id = ''fr'' @ str_int (n + 1)\<rparr>"
    by blast+
  from api_register_enrolls [where accepts = accepts, OF nm ne c2 c4 all two dims key ok]
  obtain avg s' where avg: "np_mean ?embs = Inr avg" and len: "length avg = d"
    and eq: "api_register detect accepts uuid4 req s =
               (Inr (registered_response nm uuid4 (''fr'' @ str_int (n + 1))), s')"
    and col: "collection s' = collection s @
         [\<lparr>embedding = avg, user_uuid = uuid4, name = nm,
           human_id = ''fr'' @ str_int (n + 1)\<rparr>]"
    by force
  from np_mean_elementwise [OF avg] len
  have mean: "\<forall>i<d. avg ! i = (\<Sum>e\<leftarrow>?embs. e ! i) / real (length ?embs)"
    by simp
  have "length ?embs = length (processed (files req))"
    by (rule length_embeddings_of [OF all])
  with eq col len mean
  show "\<exists>avg s'.
       api_register detect accepts uuid4 req s =
         (Inr (registered_response nm uuid4 (''fr'' @ str_int (n + 1))), s') \<and>
       collection s' = collection s @
         [\<lparr>embedding = avg, user_uuid = uuid4, name = nm,
           human_id = ''fr'' @ str_int (n + 1)\<rparr>] \<and>
       length ?embs = length (processed (files req)) \<and>
       length avg = d \<and>
       (\<forall>i<d. avg ! i = (\<Sum>e\<leftarrow>?embs. e ! i) / real (length ?embs))"
    by blast
next
  fix resp s'
  let ?embs = "embeddings_of detect (files req)"
  assume "api_register detect accepts uuid4 req s = (Inr resp, s') \<and> status resp = 201"
  then have answered: "api_register detect accepts uuid4 req s = (Inr resp, s')"
    and st: "status resp = 201"
    by simp_all
  obtain nm' n' avg where cnt: "length (files req) \<le> 4"
    and all: "\<forall>f\<in>set (processed (files req)). get_face_embedding detect (stream f) \<noteq> None"
    and two: "2 \<le> length (processed (files req))"
    and avg: "np_mean ?embs = Inr avg"
    and s': "s' = s\<lparr>collection := collection s @
                    [\<lparr>embedding = avg, user_uuid = uuid4, name = nm',
                      human_id = ''fr'' @ str_int (n' + 1)\<rparr>],
                  metadata := (metadata s)(''last_user_id'' \<mapsto> n' + 1),
                  metadata_file := Some ((metadata s)(''last_user_id'' \<mapsto> n' + 1)),
                  calls := calls s @ embedding_calls (files req)
                             @ [Call_uuid4, Call_save_metadata, Call_insert, Call_flush]\<rparr>"
    using api_register_success [OF answered st] by blast
  let ?r = "\<lparr>embedding = avg, user_uuid = uuid4, name = nm',
              human_id = ''fr'' @ str_int (n' + 1)\<rparr>"
  have len: "length ?embs = length (processed (files req))"
    by (rule length_embeddings_of [OF all])
  then have four: "length ?embs \<le> 4" and atleast: "2 \<le> length ?embs"
    using cnt two length_processed [of "files req"] by simp_all
  from np_mean_elementwise [OF avg]
  have "\<forall>e\<in>set ?embs. length e = length (embedding ?r)"
    and "\<forall>i<length (embedding ?r). embedding ?r ! i = (\<Sum>e\<leftarrow>?embs. e ! i) / real (length ?embs)"
    by simp_all
  moreover have "collection s' = collection s @ [?r]"
    by (simp add: s')
  ultimately show "\<exists>r. collection s' = collection s @ [r] \<and>
         length ?embs = length (processed (files req)) \<and>
         2 \<le> length ?embs \<and> length ?embs \<le> 4 \<and>
         (\<forall>e\<in>set ?embs. length e = length (embedding r)) \<and>
         (\<forall>i<length (embedding r).
            embedding r ! i = (\<Sum>e\<leftarrow>?embs. e ! i) / real (length ?embs))"
    using len atleast four by blast
qed

theorem api_register_stores_mean_witness:
  "embeddings_of demo_detect (files alice_request) =
     [replicate EMBEDDING_DIMENSION 1, replicate EMBEDDING_DIMENSION 3] \<and>
   fst (api_register demo_detect schema_accepts ''uuid-A'' alice_request fresh_state) =
     Inr (registered_response ''Alice'' ''uuid-A'' ''fr1'') \<and>
   status (registered_response ''Alice'' ''uuid-A'' ''fr1'') = 201 \<and>
   collection (snd (api_register demo_detect schema_accepts ''uuid-A'' alice_request fresh_state)) =
     [\<lparr>embedding = replicate EMBEDDING_DIMENSION 2, user_uuid = ''uuid-A'', name = ''Alice'',
       human_id = ''fr1''\<rparr>]"
proof -
  let ?embs = "embeddings_of demo_detect (files alice_request)"
  have hyps: "form alice_request ''name'' = Some ''Alice'' \<and> ''Alice'' \<noteq> [] \<and>
    2 \<le> length (files alice_request) \<and> length (files alice_request) \<le> 4 \<and>
    (\<forall>f\<in>set (processed (files alice_request)).
       get_face_embedding demo_detect (stream f) \<noteq> None) \<and>
    2 \<le> length (processed (files alice_request)) \<and>
    (\<forall>e\<in>set ?embs. length e = EMBEDDING_DIMENSION) \<and>
    metadata fresh_state ''last_user_id'' = Some 0 \<and>
    (\<forall>v. length v = EMBEDDING_DIMENSION \<longrightarrow>
       schema_accepts \<lparr>embedding = v, user_uuid = ''uuid-A'', name = ''Alice'',
                        human_id = ''fr'' @ str_int (0 + 1)\<rparr>)"
    by (simp add: alice_embeddings processed_alice demo_detect_embedding schema_accepts_def
        str_int_1) (simp add: alice_request_def fresh_state_def)
  from api_register_stores_mean [where req = alice_request and nm = "''Alice''"
      and detect = demo_detect and d = EMBEDDING_DIMENSION and s = fresh_state and n = 0
      and accepts = schema_accepts and ?uuid4.0 = "''uuid-A''", THEN conjunct1, rule_format,
      OF hyps]
  obtain avg s' where eq: "api_register demo_detect schema_accepts ''uuid-A'' alice_request
                             fresh_state =
                             (Inr (registered_response ''Alice'' ''uuid-A''
                                     (''fr'' @ str_int (0 + 1))), s')"
    and col: "collection s' = collection fresh_state @
                [\<lparr>embedding = avg, user_uuid = ''uuid-A'', name = ''Alice'',
                  human_id = ''fr'' @ str_int (0 + 1)\<rparr>]"
    and len: "length avg = EMBEDDING_DIMENSION"
    and mean: "\<forall>i<EMBEDDING_DIMENSION. avg ! i = (\<Sum>e\<leftarrow>?embs. e ! i) / real (length ?embs)"
    by blast
  have "avg = replicate EMBEDDING_DIMENSION 2"
  proof (rule nth_equalityI)
    show "length avg = length (replicate EMBEDDING_DIMENSION (2::real))"
      by (simp add: len)
  next
    fix i assume "i < length avg"
    then have i: "i < EMBEDDING_DIMENSION" by (simp add: len)
    with mean have "avg ! i = (\<Sum>e\<leftarrow>?embs. e ! i) / real (length ?embs)" by blast
    with i show "avg ! i = replicate EMBEDDING_DIMENSION 2 ! i"
      by (simp add: alice_embeddings)
  qed
  with col have col': "collection s' =
      [\<lparr>embedding = replicate EMBEDDING_DIMENSION 2, user_uuid = ''uuid-A'', name = ''Alice'',
        human_id = ''fr1''\<rparr>]"
    by (simp add: str_int_1 fresh_state_def)
  have st: "status (registered_response ''Alice'' ''uuid-A'' ''fr1'') = 201"
    by (simp add: registered_response_def jsonify_def)
  have r1: "fst (api_register demo_detect schema_accepts ''uuid-A'' alice_request fresh_state) =
              Inr (registered_response ''Alice'' ''uuid-A'' ''fr1'')"
    unfolding eq by (simp add: str_int_1)
  have r2: "collection (snd (api_register demo_detect schema_accepts ''uuid-A'' alice_request
                               fresh_state)) =
      [\<lparr>embedding = replicate EMBEDDING_DIMENSION 2, user_uuid = ''uuid-A'', name = ''Alice'',
        human_id = ''fr1''\<rparr>]"
    unfolding eq snd_conv by (rule col')
  show ?thesis
    by (intro conjI alice_embeddings r1 st r2)
qed

subsection \<open>Nearest-neighbour search with a threshold\<close>

text \<open>
  C2. For every query vector and every threshold, \<^verbatim>\<open>find_similar_user\<close> returns a stored
  row nearest to the query under the engine's metric, with that distance, exactly when the
  distance is strictly below the threshold; in every other case, also when rows are
  stored, it returns the four \<^verbatim>\<open>None\<close> fields. The search is logged and changes nothing
  else.
\<close>

theorem find_similar_user_threshold:
  "(collection s = [] \<longrightarrow> find_similar_user metric q t s = (no_match, log_call (Call_search q) s)) \<and>
   (collection s \<noteq> [] \<longrightarrow>
      (\<exists>r\<in>set (collection s).
         (\<forall>r'\<in>set (collection s). metric q (embedding r) \<le> metric q (embedding r')) \<and>
         find_similar_user metric q t s =
           (if metric q (embedding r) < t
            then (Some (user_uuid r), Some (name r), Some (human_id r), Some (metric q (embedding r)))
            else no_match, log_call (Call_search q) s)))"
  using find_similar_user_empty find_similar_user_nearest by blast

theorem find_similar_user_threshold_witness:
  "collection two_rows \<noteq> [] \<and>
   fst (find_similar_user l2_distance [0, 0] (11 / 10) two_rows) =
     (Some ''uuid-A'', Some ''Alice'', Some ''fr1'', Some 1) \<and>
   fst (find_similar_user l2_distance [0, 0] 1 two_rows) = no_match"
  using find_similar_user_threshold [of two_rows l2_distance "[0, 0]" "11 / 10"]
    find_similar_user_threshold [of two_rows l2_distance "[0, 0]" 1]
  by (auto simp: two_rows_def l2_distance_unit l2_distance_3_4)

subsection \<open>Deletion\<close>

text \<open>
  C3. Deleting an id that matches no row should return the count 0, and deleting a stored
  id the number of rows removed. The code removes the matching rows, flushes, and then
  reads the attribute \<^verbatim>\<open>delete_coun\<close> of the mutation result, which does not exist:
  \<^verbatim>\<open>delete_user\<close> raises \<^verbatim>\<open>AttributeError\<close> on the fresh store for an unknown id, and
  also for the stored id after its row is gone, and \<^verbatim>\<open>delete_user_page\<close> passes the
  exception on instead of flashing a message.
\<close>

theorem delete_user_raises_attribute_error:
  "delete_user uuid_filter ''no-such-id'' fresh_state =
     (Inl (AttributeError ''delete_coun''),
      fresh_state\<lparr>calls := [Call_delete (''user_uuid == '' @ [quote] @ ''no-such-id'' @ [quote]),
                            Call_flush]\<rparr>) \<and>
   fst (delete_user_page uuid_filter ''no-such-id'' fresh_state) =
     Inl (AttributeError ''delete_coun'') \<and>
   fst (delete_user uuid_filter ''uuid-A'' alice_state) = Inl (AttributeError ''delete_coun'') \<and>
   collection (snd (delete_user uuid_filter ''uuid-A'' alice_state)) = []"
  by (simp add: delete_user_page_def delete_user_def collection_delete_def
      mutation_result_getattr_def Let_def fresh_state_def alice_state_def log_call_def
      uuid_filter_def)

subsection \<open>The sequential ID allocator\<close>

text \<open>
  C4. A call of \<^verbatim>\<open>get_next_human_id\<close> on the counter n sets the counter to n + 1, writes
  it to the counter file within the call, and returns the label \<^verbatim>\<open>fr\<close> followed by the
  decimal of n + 1; a restart after the call reads n + 1 back. Hence, from a state whose
  counter n is the one a restart would load, in every run of enrollments, authentications,
  deletions and restarts, also when the engine refuses rows after their label was
  allocated, the labels answered by successful enrollments are \<^verbatim>\<open>fr\<close> followed by numbers
  that increase strictly in the order of issue: each is greater than those of all labels
  answered before it, greater than n, and at most the final counter. The counter never
  rewinds: it ends at least at n plus the number of labels answered.
\<close>

theorem sequential_labels:
  assumes "metadata s ''last_user_id'' = Some n"
  shows "get_next_human_id s =
           (Inr (''fr'' @ str_int (n + 1)),
            s\<lparr>metadata := (metadata s)(''last_user_id'' \<mapsto> n + 1),
              metadata_file := Some ((metadata s)(''last_user_id'' \<mapsto> n + 1)),
              calls := calls s @ [Call_save_metadata]\<rparr>) \<and>
         metadata (init_milvus (snd (get_next_human_id s))) ''last_user_id'' = Some (n + 1) \<and>
         (init_milvus s = s \<longrightarrow>
            (\<exists>ms c. fst (run detect accepts metric matches es s) =
                      map (\<lambda>m. ''fr'' @ str_int m) ms \<and>
                    map label_number (fst (run detect accepts metric matches es s)) = ms \<and>
                    sorted_wrt (<) ms \<and>
                    (\<forall>m\<in>set ms. n < m \<and> m \<le> c) \<and>
                    metadata (snd (run detect accepts metric matches es s)) ''last_user_id'' =
                      Some c \<and>
                    n + int (length ms) \<le> c))"
proof (intro conjI impI)
  show step: "get_next_human_id s =
           (Inr (''fr'' @ str_int (n + 1)),
            s\<lparr>metadata := (metadata s)(''last_user_id'' \<mapsto> n + 1),
              metadata_file := Some ((metadata s)(''last_user_id'' \<mapsto> n + 1)),
              calls := calls s @ [Call_save_metadata]\<rparr>)"
    by (rule get_next_human_id_step [OF assms])
  show "metadata (init_milvus (snd (get_next_human_id s))) ''last_user_id'' = Some (n + 1)"
    by (simp add: step init_milvus_def)
next
  assume "init_milvus s = s"
  from run_labels [OF this assms, where detect = detect and accepts = accepts
      and metric = metric and matches = matches and es = es]
  obtain ms c
    where labels: "fst (run detect accepts metric matches es s) =
                     map (\<lambda>m. ''fr'' @ str_int m) ms"
      and sorted: "sorted_wrt (<) ms"
      and bounds: "\<forall>m\<in>set ms. n < m \<and> m \<le> c"
      and cnt: "metadata (snd (run detect accepts metric matches es s)) ''last_user_id'' = Some c"
      and adv: "n + int (length ms) \<le> c"
    by blast
  have "map label_number (fst (run detect accepts metric matches es s)) = ms"
    unfolding labels by (rule label_numbers)
  with labels sorted bounds cnt adv
  show "\<exists>ms c. fst (run detect accepts metric matches es s) =
                      map (\<lambda>m. ''fr'' @ str_int m) ms \<and>
                    map label_number (fst (run detect accepts metric matches es s)) = ms \<and>
                    sorted_wrt (<) ms \<and>
                    (\<forall>m\<in>set ms. n < m \<and> m \<le> c) \<and>
                    metadata (snd (run detect accepts metric matches es s)) ''last_user_id'' =
                      Some c \<and>
                    n + int (length ms) \<le> c"
    by blast
qed

theorem sequential_labels_witness:
  "metadata fresh_state ''last_user_id'' = Some 0 \<and>
   init_milvus fresh_state = fresh_state \<and>
   fst (get_next_human_id fresh_state) = Inr ''fr1'' \<and>
   metadata_file (snd (get_next_human_id fresh_state)) = Some [''last_user_id'' \<mapsto> 1] \<and>
   metadata (init_milvus (snd (get_next_human_id fresh_state))) ''last_user_id'' = Some 1 \<and>
   fst (api_register demo_detect schema_accepts ''uuid-N'' long_name_request alice_state) =
     Inl MilvusException \<and>
   fst (run demo_detect schema_accepts l2_distance uuid_filter
          [Register ''uuid-A'' alice_request, Register ''uuid-N'' long_name_request, Restart,
           Register ''uuid-B'' bob_request]
          fresh_state) = [''fr1'', ''fr3''] \<and>
   sorted_wrt (<) (map label_number [''fr1'', ''fr3''])"
proof -
  have key: "metadata fresh_state ''last_user_id'' = Some 0"
    by (simp add: fresh_state_def)
  have fixed: "init_milvus fresh_state = fresh_state"
    by (simp add: fresh_state_def init_milvus_def)
  note inst = sequential_labels [OF key, where detect = demo_detect and accepts = schema_accepts
      and metric = l2_distance and matches = uuid_filter
      and es = "[Register ''uuid-A'' alice_request, Register ''uuid-N'' long_name_request,
                 Restart, Register ''uuid-B'' bob_request]"]
  from inst have call: "get_next_human_id fresh_state =
      (Inr (''fr'' @ str_int (0 + 1)),
       fresh_state\<lparr>metadata := (metadata fresh_state)(''last_user_id'' \<mapsto> 0 + 1),
         metadata_file := Some ((metadata fresh_state)(''last_user_id'' \<mapsto> 0 + 1)),
         calls := calls fresh_state @ [Call_save_metadata]\<rparr>)"
    and restart: "metadata (init_milvus (snd (get_next_human_id fresh_state))) ''last_user_id'' =
       Some (0 + 1)"
    by blast+
  from inst fixed obtain ms where
    "map label_number (fst (run demo_detect schema_accepts l2_distance uuid_filter
          [Register ''uuid-A'' alice_request, Register ''uuid-N'' long_name_request, Restart,
           Register ''uuid-B'' bob_request]
          fresh_state)) = ms" and "sorted_wrt (<) ms"
    by blast
  then have sorted: "sorted_wrt (<) (map label_number [''fr1'', ''fr3''])"
    by (simp only: alice_refused_bob)
  have r1: "fst (get_next_human_id fresh_state) = Inr ''fr1''"
    unfolding call by (simp add: str_int_1)
  have r2: "metadata_file (snd (get_next_human_id fresh_state)) = Some [''last_user_id'' \<mapsto> 1]"
    unfolding call by (simp add: fresh_state_def)
  have r3: "metadata (init_milvus (snd (get_next_human_id fresh_state))) ''last_user_id'' = Some 1"
    using restart by simp
  have r4: "fst (api_register demo_detect schema_accepts ''uuid-N'' long_name_request alice_state) =
     Inl MilvusException"
    by (simp add: long_name_refused)
  show ?thesis
    by (intro conjI key fixed r1 r2 r3 r4 alice_refused_bob sorted)
qed

subsection \<open>Enrollment: an image without a face\<close>

text \<open>
  C5. In an enrollment request that passes validation, when the face model finds no face
  in one of the images handed to it, the answer is the status 400 error that carries the
  file name of the first such image; the only effect is the calls to the face model up to
  that image, so no row is inserted and the counter and its file are untouched.
\<close>

theorem api_register_no_face:
  assumes "form req ''name'' = Some nm" and "nm \<noteq> []"
    and "2 \<le> length (files req)" and "length (files req) \<le> 4"
    and "\<exists>f\<in>set (files req). filename f \<noteq> [] \<and> get_face_embedding detect (stream f) = None"
  shows "\<exists>pre f post. files req = pre @ f # post \<and> filename f \<noteq> [] \<and>
           get_face_embedding detect (stream f) = None \<and>
           api_register detect accepts uuid4 req s =
             (Inr (jsonify [(''error'', JStr (''No face detected in one of the images (''
                     @ [quote] @ filename f @ [quote] @ '').''))] 400),
              s\<lparr>calls := calls s @ embedding_calls (pre @ [f])\<rparr>)"
  using api_register_first_failure [OF assms] unfolding no_face_response_def .

theorem api_register_no_face_witness:
  "form blank_image_request ''name'' = Some ''Carol'' \<and>
   length (files blank_image_request) = 3 \<and>
   get_face_embedding demo_detect (stream (photo ''c2.jpg'' ''sky'')) = None \<and>
   (\<exists>pre f post. files blank_image_request = pre @ f # post \<and> filename f \<noteq> [] \<and>
      get_face_embedding demo_detect (stream f) = None \<and>
      api_register demo_detect schema_accepts ''uuid-C'' blank_image_request fresh_state =
        (Inr (jsonify [(''error'', JStr (''No face detected in one of the images (''
                @ [quote] @ filename f @ [quote] @ '').''))] 400),
         fresh_state\<lparr>calls := calls fresh_state @ embedding_calls (pre @ [f])\<rparr>))"
  using api_register_no_face [where req = blank_image_request and nm = "''Carol''"
      and detect = demo_detect and accepts = schema_accepts and ?uuid4.0 = "''uuid-C''"
      and s = fresh_state]
  by (simp add: blank_image_request_def photo_def get_face_embedding_def demo_detect_def)

subsection \<open>Enrollment: validation\<close>

text \<open>
  C6. An enrollment request with no name, an empty name, fewer than 2 or more than 4
  images is answered with status 400 at once: the state is returned as it was, so no row
  is inserted, no label is allocated, and no call reaches the face model or the engine.
\<close>

theorem api_register_validation:
  assumes "form req ''name'' = None \<or> form req ''name'' = Some [] \<or>
           length (files req) < 2 \<or> 4 < length (files req)"
  shows "api_register detect accepts uuid4 req s =
           (Inr (jsonify [(''error'', JStr (if form req ''name'' = None \<or> form req ''name'' = Some []
               then ''Missing name''
               else ''Please upload between 2 and 4 images. You uploaded ''
                      @ str_int (int (length (files req))) @ ''.''))] 400), s)"
  using assms by (rule api_register_invalid)

theorem api_register_validation_witness:
  "form nameless_request ''name'' = None \<and>
   api_register demo_detect schema_accepts ''uuid-A'' nameless_request fresh_state =
     (Inr (jsonify [(''error'', JStr ''Missing name'')] 400), fresh_state) \<and>
   length (files one_image_request) < 2 \<and>
   api_register demo_detect schema_accepts ''uuid-A'' one_image_request fresh_state =
     (Inr (jsonify [(''error'',
        JStr ''Please upload between 2 and 4 images. You uploaded 1.'')] 400), fresh_state)"
  using api_register_validation [where req = nameless_request and detect = demo_detect
      and accepts = schema_accepts and ?uuid4.0 = "''uuid-A''" and s = fresh_state]
    api_register_validation [where req = one_image_request and detect = demo_detect
      and accepts = schema_accepts and ?uuid4.0 = "''uuid-A''" and s = fresh_state]
  by (simp add: nameless_request_def one_image_request_def str_int_def str_nat.simps
      digit_char_def)

subsection \<open>Authentication: an image without a face\<close>

text \<open>
  C7. When the image of an authentication request yields no face, the answer has status
  200 with \<^verbatim>\<open>authenticated\<close> false and the message ``No face detected''; the only call
  made is the one to the face model, so the collection is not searched.
\<close>

theorem api_authenticate_no_face:
  assumes "files req = img # rest" and "filename img \<noteq> []"
    and "get_face_embedding detect (stream img) = None"
  shows "api_authenticate detect metric req s =
           (Inr (jsonify [(''authenticated'', JBool False),
                          (''message'', JStr ''No face detected'')] 200),
            s\<lparr>calls := calls s @ [Call_get_face_embedding (stream img)]\<rparr>)"
  using assms by (simp add: api_authenticate_def Let_def log_call_def)

theorem api_authenticate_no_face_witness:
  "api_authenticate demo_detect l2_distance
      \<lparr>form = Map.empty, files = [photo ''blank.jpg'' ''sky'']\<rparr> two_rows =
     (Inr (jsonify [(''authenticated'', JBool False),
                    (''message'', JStr ''No face detected'')] 200),
      two_rows\<lparr>calls := calls two_rows @ [Call_get_face_embedding ''sky'']\<rparr>)"
  using api_authenticate_no_face [of "\<lparr>form = Map.empty, files = [photo ''blank.jpg'' ''sky'']\<rparr>"
      "photo ''blank.jpg'' ''sky''" "[]" demo_detect l2_distance two_rows]
  by (simp add: photo_def get_face_embedding_def demo_detect_def)

subsection \<open>Authentication: a match\<close>

text \<open>
  C8. In every state the program can reach, when \<^verbatim>\<open>find_similar_user\<close> returns a match
  for the embedding of the request's image, the answer of \<^verbatim>\<open>api_authenticate\<close> has
  status 200 with \<^verbatim>\<open>authenticated\<close> true and carries the matched row's uuid, name and
  human id and the distance. The handler tests the returned name for truth; the names of
  stored rows are never empty, since \<^verbatim>\<open>api_register\<close> rejects an empty name.
\<close>

theorem api_authenticate_match:
  assumes "reachable s"
    and "files req = img # rest" and "filename img \<noteq> []"
    and "get_face_embedding detect (stream img) = Some q"
    and "fst (find_similar_user metric q DISTANCE_THRESHOLD s) = m" and "m \<noteq> no_match"
  shows "\<exists>u n h d. m = (Some u, Some n, Some h, Some d) \<and>
           fst (api_authenticate detect metric req s) =
             Inr (jsonify
               [(''authenticated'', JBool True),
                (''message'', JStr (''Authentication successful. Welcome, '' @ n
                   @ ''. Your ID is '' @ h @ ''.'')),
                (''uuid'', JStr u), (''name'', JStr n), (''human_id'', JStr h),
                (''distance'', JNum d)] 200)"
proof -
  let ?s1 = "log_call (Call_get_face_embedding (stream img)) s"
  obtain r where r: "r \<in> set (collection s)"
    and m: "m = (Some (user_uuid r), Some (name r), Some (human_id r), Some (metric q (embedding r)))"
    using find_similar_user_match_row [OF assms(5,6)] by blast
  have nonempty: "name r \<noteq> []"
    using reachable_names [OF assms(1)] r by blast
  have "fst (find_similar_user metric q DISTANCE_THRESHOLD ?s1) = m"
    using find_similar_user_fst_collection [of ?s1 s metric q DISTANCE_THRESHOLD] assms(5)
    by (simp add: log_call_def)
  then obtain s2 where "find_similar_user metric q DISTANCE_THRESHOLD ?s1 = (m, s2)"
    by (cases "find_similar_user metric q DISTANCE_THRESHOLD ?s1") simp
  then have "fst (api_authenticate detect metric req s) =
             Inr (jsonify
               [(''authenticated'', JBool True),
                (''message'', JStr (''Authentication successful. Welcome, '' @ name r
                   @ ''. Your ID is '' @ human_id r @ ''.'')),
                (''uuid'', JStr (user_uuid r)), (''name'', JStr (name r)),
                (''human_id'', JStr (human_id r)),
                (''distance'', JNum (metric q (embedding r)))] 200)"
    using assms(2-4) nonempty
    by (simp add: api_authenticate_def Let_def m fmt_def json_of_def)
  with m show ?thesis by blast
qed

theorem api_authenticate_match_witness:
  "reachable alice_state \<and>
   fst (find_similar_user l2_distance (replicate EMBEDDING_DIMENSION 2) DISTANCE_THRESHOLD
          alice_state) =
     (Some ''uuid-A'', Some ''Alice'', Some ''fr1'', Some 0) \<and>
   fst (api_authenticate demo_detect l2_distance alice_probe alice_state) =
     Inr (jsonify
       [(''authenticated'', JBool True),
        (''message'', JStr ''Authentication successful. Welcome, Alice. Your ID is fr1.''),
        (''uuid'', JStr ''uuid-A''), (''name'', JStr ''Alice''), (''human_id'', JStr ''fr1''),
        (''distance'', JNum 0)] 200)"
proof -
  have emb: "get_face_embedding demo_detect (stream (photo ''probe.jpg'' ''FF'')) =
               Some (replicate EMBEDDING_DIMENSION 2)"
    by (simp add: demo_detect_embedding)
  have fs: "files alice_probe = photo ''probe.jpg'' ''FF'' # []"
    by (simp add: alice_probe_def)
  have fname: "filename (photo ''probe.jpg'' ''FF'') \<noteq> []"
    by (simp add: photo_def)
  have nm: "(Some ''uuid-A'', Some ''Alice'', Some ''fr1'', Some (0::real)) \<noteq> no_match"
    by (simp add: no_match_def)
  from api_authenticate_match [OF reachable_alice_state fs fname emb alice_found nm]
  show ?thesis
    using reachable_alice_state alice_found by simp
qed

subsection \<open>Enrollment: one record per success\<close>

text \<open>
  C9. A successful enrollment inserts exactly one record and returns its pair. A request
  with a name and 2 to 4 files, whose files with a file name all yield embeddings of one
  dimension d and are at least 2, is answered, the counter being n and the engine
  accepting rows of dimension d for this uuid, name and label, with status 201 and a body
  carrying the uuid generated in this call and the label \<^verbatim>\<open>fr\<close>(n + 1); the state then
  differs from the one before by exactly one appended row with that uuid and label, the
  counter n + 1 in memory and in the file, and the calls made (one insert, one flush). And
  every enrollment answered with status 201 is of this kind.
\<close>

theorem api_register_inserts_one:
  "(form req ''name'' = Some nm \<and> nm \<noteq> [] \<and>
    2 \<le> length (files req) \<and> length (files req) \<le> 4 \<and>
    (\<forall>f\<in>set (processed (files req)). get_face_embedding detect (stream f) \<noteq> None) \<and>
    2 \<le> length (processed (files req)) \<and>
    (\<forall>e\<in>set (embeddings_of detect (files req)). length e = d) \<and>
    metadata s ''last_user_id'' = Some n \<and>
    (\<forall>v. length v = d \<longrightarrow>
       accepts \<lparr>embedding = v, user_uuid = uuid4, name = nm,
                 human_id = ''fr'' @ str_int (n + 1)\<rparr>) \<longrightarrow>
    (\<exists>avg.
       api_register detect accepts uuid4 req s =
         (Inr (jsonify
            [(''success'', JBool True),
             (''message'', JStr (''User '' @ [quote] @ nm @ [quote]
                @ '' registered successfully with ID '' @ ''fr'' @ str_int (n + 1) @ ''.'')),
             (''uuid'', JStr uuid4), (''human_id'', JStr (''fr'' @ str_int (n + 1)))] 201),
          s\<lparr>collection := collection s @
               [\<lparr>embedding = avg, user_uuid = uuid4, name = nm,
                 human_id = ''fr'' @ str_int (n + 1)\<rparr>],
            metadata := (metadata s)(''last_user_id'' \<mapsto> n + 1),
            metadata_file := Some ((metadata s)(''last_user_id'' \<mapsto> n + 1)),
            calls := calls s @ embedding_calls (files req)
                       @ [Call_uuid4, Call_save_metadata, Call_insert, Call_flush]\<rparr>))) \<and>
   (\<forall>resp s'.
      api_register detect accepts uuid4 req s = (Inr resp, s') \<and> status resp = 201 \<longrightarrow>
      (\<exists>nm' n' avg.
         form req ''name'' = Some nm' \<and> metadata s ''last_user_id'' = Some n' \<and>
         collection s' = collection s @
           [\<lparr>embedding = avg, user_uuid = uuid4, name = nm',
             human_id = ''fr'' @ str_int (n' + 1)\<rparr>] \<and>
         metadata s' ''last_user_id'' = Some (n' + 1) \<and>
         metadata_file s' = Some (metadata s') \<and>
         calls s' = calls s @ embedding_calls (files req)
                      @ [Call_uuid4, Call_save_metadata, Call_insert, Call_flush] \<and>
         Inr resp = Inr (jsonify
                      [(''success'', JBool True),
                       (''message'', JStr (''User '' @ [quote] @ nm' @ [quote]
                          @ '' registered successfully with ID '' @ ''fr'' @ str_int (n' + 1) @ ''.'')),
                       (''uuid'', JStr uuid4), (''human_id'', JStr (''fr'' @ str_int (n' + 1)))] 201)))"
proof (intro conjI impI allI)
  assume a: "form req ''name'' = Some nm \<and> nm \<noteq> [] \<and>
    2 \<le> length (files req) \<and> length (files req) \<le> 4 \<and>
    (\<forall>f\<in>set (processed (files req)). get_face_embedding detect (stream f) \<noteq> None) \<and>
    2 \<le> length (processed (files req)) \<and>
    (\<forall>e\<in>set (embeddings_of detect (files req)). length e = d) \<and>
    metadata s ''last_user_id'' = Some n \<and>
    (\<forall>v. length v = d \<longrightarrow>
       accepts \<lparr>embedding = v, user_uuid = uuid4, name = nm,
                 human_id = ''fr'' @ str_int (n + 1)\<rparr>)"
  then have nm: "form req ''name'' = Some nm" and ne: "nm \<noteq> []"
    and c2: "2 \<le> length (files req)" and c4: "length (files req) \<le> 4"
    and all: "\<forall>f\<in>set (processed (files req)). get_face_embedding detect (stream f) \<noteq> None"
    and two: "2 \<le> length (processed (files req))"
    and dims: "\<forall>e\<in>set (embeddings_of detect (files req)). length e = d"
    and key: "metadata s ''last_user_id'' = Some n"
    and ok: "\<forall>v. length v = d \<longrightarrow>
       accepts \<lparr>embedding = v, user_uuid = uuid4, name = nm,
                 human_id = ''fr'' @ str_int (n + 1)\<rparr>"
    by blast+
  from api_register_enrolls [where accepts = accepts, OF nm ne c2 c4 all two dims key ok]
  show "\<exists>avg.
       api_register detect accepts uuid4 req s =
         (Inr (jsonify
            [(''success'', JBool True),
             (''message'', JStr (''User '' @ [quote] @ nm @ [quote]
                @ '' registered successfully with ID '' @ ''fr'' @ str_int (n + 1) @ ''.'')),
             (''uuid'', JStr uuid4), (''human_id'', JStr (''fr'' @ str_int (n + 1)))] 201),
          s\<lparr>collection := collection s @
               [\<lparr>embedding = avg, user_uuid = uuid4, name = nm,
                 human_id = ''fr'' @ str_int (n + 1)\<rparr>],
            metadata := (metadata s)(''last_user_id'' \<mapsto> n + 1),
            metadata_file := Some ((metadata s)(''last_user_id'' \<mapsto> n + 1)),
            calls := calls s @ embedding_calls (files req)
                       @ [Call_uuid4, Call_save_metadata, Call_insert, Call_flush]\<rparr>)"
    by (auto simp: registered_response_def)
next
  fix resp s'
  assume "api_register detect accepts uuid4 req s = (Inr resp, s') \<and> status resp = 201"
  then have answered: "api_register detect accepts uuid4 req s = (Inr resp, s')"
    and st: "status resp = 201"
    by simp_all
  obtain nm' n' avg where "form req ''name'' = Some nm'" "metadata s ''last_user_id'' = Some n'"
    and resp: "resp = registered_response nm' uuid4 (''fr'' @ str_int (n' + 1))"
    and s': "s' = s\<lparr>collection := collection s @
                    [\<lparr>embedding = avg, user_uuid = uuid4, name = nm',
                      human_id = ''fr'' @ str_int (n' + 1)\<rparr>],
                  metadata := (metadata s)(''last_user_id'' \<mapsto> n' + 1),
                  metadata_file := Some ((metadata s)(''last_user_id'' \<mapsto> n' + 1)),
                  calls := calls s @ embedding_calls (files req)
                             @ [Call_uuid4, Call_save_metadata, Call_insert, Call_flush]\<rparr>"
    using api_register_success [OF answered st] by blast
  then show "\<exists>nm' n' avg.
         form req ''name'' = Some nm' \<and> metadata s ''last_user_id'' = Some n' \<and>
         collection s' = collection s @
           [\<lparr>embedding = avg, user_uuid = uuid4, name = nm',
             human_id = ''fr'' @ str_int (n' + 1)\<rparr>] \<and>
         metadata s' ''last_user_id'' = Some (n' + 1) \<and>
         metadata_file s' = Some (metadata s') \<and>
         calls s' = calls s @ embedding_calls (files req)
                      @ [Call_uuid4, Call_save_metadata, Call_insert, Call_flush] \<and>
         Inr resp = Inr (jsonify
                      [(''success'', JBool True),
                       (''message'', JStr (''User '' @ [quote] @ nm' @ [quote]
                          @ '' registered successfully with ID '' @ ''fr'' @ str_int (n' + 1) @ ''.'')),
                       (''uuid'', JStr uuid4), (''human_id'', JStr (''fr'' @ str_int (n' + 1)))] 201)"
    by (simp add: registered_response_def)
qed

theorem api_register_inserts_one_witness:
  "api_register demo_detect schema_accepts ''uuid-A'' alice_request fresh_state =
     (Inr (jsonify [(''success'', JBool True),
                    (''message'', JStr (''User '' @ [quote] @ ''Alice'' @ [quote]
                       @ '' registered successfully with ID fr1.'')),
                    (''uuid'', JStr ''uuid-A''), (''human_id'', JStr ''fr1'')] 201),
      alice_state) \<and>
   collection fresh_state = [] \<and>
   collection alice_state =
     [\<lparr>embedding = replicate EMBEDDING_DIMENSION 2, user_uuid = ''uuid-A'', name = ''Alice'',
       human_id = ''fr1''\<rparr>]"
proof -
  have hyps: "form alice_request ''name'' = Some ''Alice'' \<and> ''Alice'' \<noteq> [] \<and>
    2 \<le> length (files alice_request) \<and> length (files alice_request) \<le> 4 \<and>
    (\<forall>f\<in>set (processed (files alice_request)).
       get_face_embedding demo_detect (stream f) \<noteq> None) \<and>
    2 \<le> length (processed (files alice_request)) \<and>
    (\<forall>e\<in>set (embeddings_of demo_detect (files alice_request)).
       length e = EMBEDDING_DIMENSION) \<and>
    metadata fresh_state ''last_user_id'' = Some 0 \<and>
    (\<forall>v. length v = EMBEDDING_DIMENSION \<longrightarrow>
       schema_accepts \<lparr>embedding = v, user_uuid = ''uuid-A'', name = ''Alice'',
                        human_id = ''fr'' @ str_int (0 + 1)\<rparr>)"
    by (simp add: alice_embeddings processed_alice demo_detect_embedding schema_accepts_def
        str_int_1) (simp add: alice_request_def fresh_state_def)
  from api_register_inserts_one [where req = alice_request and nm = "''Alice''"
      and detect = demo_detect and d = EMBEDDING_DIMENSION and s = fresh_state and n = 0
      and accepts = schema_accepts and ?uuid4.0 = "''uuid-A''", THEN conjunct1, rule_format,
      OF hyps]
  obtain avg where eq: "api_register demo_detect schema_accepts ''uuid-A'' alice_request
                          fresh_state =
         (Inr (jsonify
            [(''success'', JBool True),
             (''message'', JStr (''User '' @ [quote] @ ''Alice'' @ [quote]
                @ '' registered successfully with ID '' @ ''fr'' @ str_int (0 + 1) @ ''.'')),
             (''uuid'', JStr ''uuid-A''), (''human_id'', JStr (''fr'' @ str_int (0 + 1)))] 201),
          fresh_state\<lparr>collection := collection fresh_state @
               [\<lparr>embedding = avg, user_uuid = ''uuid-A'', name = ''Alice'',
                 human_id = ''fr'' @ str_int (0 + 1)\<rparr>],
            metadata := (metadata fresh_state)(''last_user_id'' \<mapsto> 0 + 1),
            metadata_file := Some ((metadata fresh_state)(''last_user_id'' \<mapsto> 0 + 1)),
            calls := calls fresh_state @ embedding_calls (files alice_request)
                       @ [Call_uuid4, Call_save_metadata, Call_insert, Call_flush]\<rparr>)"
    by blast
  from eq [unfolded alice_enrolled] have avg: "avg = replicate EMBEDDING_DIMENSION 2"
    by (simp add: alice_state_def fresh_state_def)
  have r1: "api_register demo_detect schema_accepts ''uuid-A'' alice_request fresh_state =
     (Inr (jsonify [(''success'', JBool True),
                    (''message'', JStr (''User '' @ [quote] @ ''Alice'' @ [quote]
                       @ '' registered successfully with ID fr1.'')),
                    (''uuid'', JStr ''uuid-A''), (''human_id'', JStr ''fr1'')] 201),
      alice_state)"
    unfolding eq
    by (simp add: avg str_int_1 fresh_state_def alice_state_def embedding_calls_def
        processed_alice photo_def)
  have r2: "collection fresh_state = []"
    by (simp add: fresh_state_def)
  have r3: "collection alice_state =
     [\<lparr>embedding = replicate EMBEDDING_DIMENSION 2, user_uuid = ''uuid-A'', name = ''Alice'',
       human_id = ''fr1''\<rparr>]"
    by (simp add: alice_state_def)
  show ?thesis
    by (intro conjI r1 r2 r3)
qed

subsection \<open>Enrollment: files without a file name\<close>

text \<open>
  C10, as claimed, fails: enrollment would succeed whenever at least 2 of the files with a
  file name yield embeddings. In this request of 4 files, one has no file name and two of
  the other three yield embeddings, yet the answer is the status 400 error for the image
  without a face, and no row is inserted.
\<close>

theorem unnamed_file_counterexample:
  "length (files unnamed_and_blank_request) = 4 \<and>
   length (embeddings_of demo_detect (files unnamed_and_blank_request)) = 2 \<and>
   fst (api_register demo_detect schema_accepts ''uuid-C'' unnamed_and_blank_request fresh_state) =
     Inr (jsonify [(''error'', JStr (''No face detected in one of the images (''
            @ [quote] @ ''c2.jpg'' @ [quote] @ '').''))] 400) \<and>
   collection (snd (api_register demo_detect schema_accepts ''uuid-C'' unnamed_and_blank_request
                      fresh_state)) = []"
  by (simp add: unnamed_and_blank_embeddings unnamed_and_blank_refused no_face_response_def)
    (simp add: unnamed_and_blank_request_def fresh_state_def)

text \<open>
  C10, amended. In a request that passes validation, where files without a file name count
  toward the number of images, the face model is called for files with a file name only.
  When one of these yields no face, the answer is the no-face error for it. When all of
  them yield embeddings and fewer than 2 remain, the answer is the ``fewer than 2 valid''
  error. When all of them yield embeddings of one dimension, at least 2 remain, the
  counter is present and the engine accepts the row, the enrollment succeeds with status
  201.
\<close>

theorem api_register_skips_unnamed:
  assumes "form req ''name'' = Some nm" and "nm \<noteq> []"
    and "2 \<le> length (files req)" and "length (files req) \<le> 4"
  shows "((\<exists>f\<in>set (processed (files req)). get_face_embedding detect (stream f) = None) \<longrightarrow>
            (\<exists>f\<in>set (processed (files req)). \<exists>calls'.
               get_face_embedding detect (stream f) = None \<and>
               set calls' \<subseteq> set (embedding_calls (files req)) \<and>
               api_register detect accepts uuid4 req s =
                 (Inr (no_face_response (filename f)), s\<lparr>calls := calls s @ calls'\<rparr>))) \<and>
         ((\<forall>f\<in>set (processed (files req)). get_face_embedding detect (stream f) \<noteq> None) \<and>
          length (processed (files req)) < 2 \<longrightarrow>
            api_register detect accepts uuid4 req s =
              (Inr fewer_response, s\<lparr>calls := calls s @ embedding_calls (files req)\<rparr>)) \<and>
         ((\<forall>f\<in>set (processed (files req)). get_face_embedding detect (stream f) \<noteq> None) \<and>
          2 \<le> length (processed (files req)) \<and>
          (\<forall>e\<in>set (embeddings_of detect (files req)). length e = d) \<and>
          metadata s ''last_user_id'' = Some n \<and>
          (\<forall>v. length v = d \<longrightarrow>
             accepts \<lparr>embedding = v, user_uuid = uuid4, name = nm,
                       human_id = ''fr'' @ str_int (n + 1)\<rparr>) \<longrightarrow>
            (\<exists>s'. api_register detect accepts uuid4 req s =
                     (Inr (registered_response nm uuid4 (''fr'' @ str_int (n + 1))), s') \<and>
                   length (collection s') = Suc (length (collection s)) \<and>
                   calls s' = calls s @ embedding_calls (files req)
                                @ [Call_uuid4, Call_save_metadata, Call_insert, Call_flush]))"
proof (intro conjI impI)
  assume "\<exists>f\<in>set (processed (files req)). get_face_embedding detect (stream f) = None"
  then have "\<exists>f\<in>set (files req). filename f \<noteq> [] \<and> get_face_embedding detect (stream f) = None"
    by (auto simp: processed_def)
  from api_register_first_failure [OF assms this, of accepts uuid4 s]
  obtain pre f post where split: "files req = pre @ f # post"
    and f: "filename f \<noteq> []" "get_face_embedding detect (stream f) = None"
    and eq: "api_register detect accepts uuid4 req s =
               (Inr (no_face_response (filename f)),
                s\<lparr>calls := calls s @ embedding_calls (pre @ [f])\<rparr>)"
    by blast
  have "f \<in> set (processed (files req))"
    using split f by (simp add: processed_def)
  moreover have "set (embedding_calls (pre @ [f])) \<subseteq> set (embedding_calls (files req))"
    by (auto simp: embedding_calls_def processed_def split)
  ultimately show "\<exists>f\<in>set (processed (files req)). \<exists>calls'.
               get_face_embedding detect (stream f) = None \<and>
               set calls' \<subseteq> set (embedding_calls (files req)) \<and>
               api_register detect accepts uuid4 req s =
                 (Inr (no_face_response (filename f)), s\<lparr>calls := calls s @ calls'\<rparr>)"
    using f eq by blast
next
  assume a: "(\<forall>f\<in>set (processed (files req)). get_face_embedding detect (stream f) \<noteq> None) \<and>
          length (processed (files req)) < 2"
  then have all: "\<forall>f\<in>set (processed (files req)). get_face_embedding detect (stream f) \<noteq> None"
    by simp
  have "length (embeddings_of detect (files req)) < 2"
    using a length_embeddings_of [OF all] by simp
  with api_register_all_embedded [OF assms all, of accepts uuid4 s]
  show "api_register detect accepts uuid4 req s =
          (Inr fewer_response, s\<lparr>calls := calls s @ embedding_calls (files req)\<rparr>)"
    by simp
next
  assume a: "(\<forall>f\<in>set (processed (files req)). get_face_embedding detect (stream f) \<noteq> None) \<and>
          2 \<le> length (processed (files req)) \<and>
          (\<forall>e\<in>set (embeddings_of detect (files req)). length e = d) \<and>
          metadata s ''last_user_id'' = Some n \<and>
          (\<forall>v. length v = d \<longrightarrow>
             accepts \<lparr>embedding = v, user_uuid = uuid4, name = nm,
                       human_id = ''fr'' @ str_int (n + 1)\<rparr>)"
  then have all: "\<forall>f\<in>set (processed (files req)). get_face_embedding detect (stream f) \<noteq> None"
    and two: "2 \<le> length (processed (files req))"
    and same_dim: "\<forall>e\<in>set (embeddings_of detect (files req)). length e = d"
    and key: "metadata s ''last_user_id'' = Some n"
    and ok: "\<forall>v. length v = d \<longrightarrow>
             accepts \<lparr>embedding = v, user_uuid = uuid4, name = nm,
                       human_id = ''fr'' @ str_int (n + 1)\<rparr>"
    by blast+
  from api_register_enrolls [where accepts = accepts, OF assms all two same_dim key ok]
  obtain avg where eq: "api_register detect accepts uuid4 req s =
             (Inr (registered_response nm uuid4 (''fr'' @ str_int (n + 1))),
              s\<lparr>collection := collection s @
                   [\<lparr>embedding = avg, user_uuid = uuid4, name = nm,
                     human_id = ''fr'' @ str_int (n + 1)\<rparr>],
                metadata := (metadata s)(''last_user_id'' \<mapsto> n + 1),
                metadata_file := Some ((metadata s)(''last_user_id'' \<mapsto> n + 1)),
                calls := calls s @ embedding_calls (files req)
                           @ [Call_uuid4, Call_save_metadata, Call_insert, Call_flush]\<rparr>)"
    by blast
  show "\<exists>s'. api_register detect accepts uuid4 req s =
                     (Inr (registered_response nm uuid4 (''fr'' @ str_int (n + 1))), s') \<and>
                   length (collection s') = Suc (length (collection s)) \<and>
                   calls s' = calls s @ embedding_calls (files req)
                                @ [Call_uuid4, Call_save_metadata, Call_insert, Call_flush]"
    unfolding eq by simp
qed

theorem api_register_skips_unnamed_witness:
  "length (files unnamed_file_request) = 3 \<and>
   fst (api_register demo_detect schema_accepts ''uuid-A'' unnamed_file_request fresh_state) =
     Inr (registered_response ''Alice'' ''uuid-A'' ''fr1'') \<and>
   calls (snd (api_register demo_detect schema_accepts ''uuid-A'' unnamed_file_request
                 fresh_state)) =
     [Call_get_face_embedding ''F'', Call_get_face_embedding ''FFF'',
      Call_uuid4, Call_save_metadata, Call_insert, Call_flush] \<and>
   length (files unnamed_and_one_request) = 2 \<and>
   api_register demo_detect schema_accepts ''uuid-A'' unnamed_and_one_request fresh_state =
     (Inr fewer_response, fresh_state\<lparr>calls := [Call_get_face_embedding ''F'']\<rparr>) \<and>
   length (files unnamed_and_blank_request) = 4 \<and>
   (\<exists>f\<in>set (processed (files unnamed_and_blank_request)). \<exists>calls'.
      get_face_embedding demo_detect (stream f) = None \<and>
      set calls' \<subseteq> set (embedding_calls (files unnamed_and_blank_request)) \<and>
      api_register demo_detect schema_accepts ''uuid-C'' unnamed_and_blank_request fresh_state =
        (Inr (no_face_response (filename f)), fresh_state\<lparr>calls := calls fresh_state @ calls'\<rparr>))"
proof -
  have len3: "length (files unnamed_file_request) = 3"
    by (simp add: unnamed_file_request_def)
  have len2: "length (files unnamed_and_one_request) = 2"
    by (simp add: unnamed_and_one_request_def)
  have nm3: "form unnamed_file_request ''name'' = Some ''Alice''"
    by (simp add: unnamed_file_request_def)
  have nm2: "form unnamed_and_one_request ''name'' = Some ''Alice''"
    by (simp add: unnamed_and_one_request_def)
  have ne: "''Alice'' \<noteq> []" by simp
  have calls3: "embedding_calls (files unnamed_file_request) =
                  [Call_get_face_embedding ''F'', Call_get_face_embedding ''FFF'']"
    by (simp add: embedding_calls_def processed_unnamed_file) (simp add: photo_def)
  have calls2: "embedding_calls (files unnamed_and_one_request) = [Call_get_face_embedding ''F'']"
    by (simp add: embedding_calls_def processed_unnamed_and_one) (simp add: photo_def)
  have hyps3: "(\<forall>f\<in>set (processed (files unnamed_file_request)).
                  get_face_embedding demo_detect (stream f) \<noteq> None) \<and>
          2 \<le> length (processed (files unnamed_file_request)) \<and>
          (\<forall>e\<in>set (embeddings_of demo_detect (files unnamed_file_request)).
             length e = EMBEDDING_DIMENSION) \<and>
          metadata fresh_state ''last_user_id'' = Some 0 \<and>
          (\<forall>v. length v = EMBEDDING_DIMENSION \<longrightarrow>
             schema_accepts \<lparr>embedding = v, user_uuid = ''uuid-A'', name = ''Alice'',
                              human_id = ''fr'' @ str_int (0 + 1)\<rparr>)"
    by (simp add: embeddings_of_def processed_unnamed_file List.map_filter_simps
        demo_detect_embedding schema_accepts_def str_int_1) (simp add: fresh_state_def)
  note inst3 = api_register_skips_unnamed [OF nm3 ne, where detect = demo_detect
      and accepts = schema_accepts and d = EMBEDDING_DIMENSION and s = fresh_state and n = 0
      and ?uuid4.0 = "''uuid-A''"]
  from inst3 len3 hyps3
  obtain s' where eq3: "api_register demo_detect schema_accepts ''uuid-A'' unnamed_file_request
                          fresh_state =
               (Inr (registered_response ''Alice'' ''uuid-A'' (''fr'' @ str_int (0 + 1))), s')"
    and c3: "calls s' = calls fresh_state @ embedding_calls (files unnamed_file_request)
                          @ [Call_uuid4, Call_save_metadata, Call_insert, Call_flush]"
    by auto
  have ok: "fst (api_register demo_detect schema_accepts ''uuid-A'' unnamed_file_request
                   fresh_state) =
       Inr (registered_response ''Alice'' ''uuid-A'' ''fr1'')"
    unfolding eq3 by (simp add: str_int_1)
  have ok_calls: "calls (snd (api_register demo_detect schema_accepts ''uuid-A''
                                unnamed_file_request fresh_state)) =
       [Call_get_face_embedding ''F'', Call_get_face_embedding ''FFF'',
        Call_uuid4, Call_save_metadata, Call_insert, Call_flush]"
    unfolding eq3 snd_conv c3 calls3 by (simp add: fresh_state_def)
  have hyps2: "(\<forall>f\<in>set (processed (files unnamed_and_one_request)).
                  get_face_embedding demo_detect (stream f) \<noteq> None) \<and>
          length (processed (files unnamed_and_one_request)) < 2"
    by (simp add: processed_unnamed_and_one demo_detect_embedding)
  note inst2 = api_register_skips_unnamed [OF nm2 ne, where detect = demo_detect
      and accepts = schema_accepts and s = fresh_state and ?uuid4.0 = "''uuid-A''"]
  from inst2 len2 hyps2
  have "api_register demo_detect schema_accepts ''uuid-A'' unnamed_and_one_request fresh_state =
     (Inr fewer_response,
      fresh_state\<lparr>calls := calls fresh_state @ embedding_calls (files unnamed_and_one_request)\<rparr>)"
    by auto
  then have few: "api_register demo_detect schema_accepts ''uuid-A'' unnamed_and_one_request
                    fresh_state =
     (Inr fewer_response, fresh_state\<lparr>calls := [Call_get_face_embedding ''F'']\<rparr>)"
    by (simp add: calls2 fresh_state_def)
  have len4: "length (files unnamed_and_blank_request) = 4"
    by (simp add: unnamed_and_blank_request_def)
  have nm4: "form unnamed_and_blank_request ''name'' = Some ''Carol''"
    by (simp add: unnamed_and_blank_request_def)
  have ne4: "''Carol'' \<noteq> []" by simp
  have "photo ''c2.jpg'' ''sky'' \<in> set (processed (files unnamed_and_blank_request))"
    by (simp add: processed_unnamed_and_blank)
  then have hyps4: "\<exists>f\<in>set (processed (files unnamed_and_blank_request)).
      get_face_embedding demo_detect (stream f) = None"
    using demo_detect_no_face by blast
  note inst4 = api_register_skips_unnamed [OF nm4 ne4, where detect = demo_detect
      and accepts = schema_accepts and s = fresh_state and ?uuid4.0 = "''uuid-C''"]
  from inst4 len4 hyps4
  have blank: "\<exists>f\<in>set (processed (files unnamed_and_blank_request)). \<exists>calls'.
      get_face_embedding demo_detect (stream f) = None \<and>
      set calls' \<subseteq> set (embedding_calls (files unnamed_and_blank_request)) \<and>
      api_register demo_detect schema_accepts ''uuid-C'' unnamed_and_blank_request fresh_state =
        (Inr (no_face_response (filename f)), fresh_state\<lparr>calls := calls fresh_state @ calls'\<rparr>)"
    by simp
  show ?thesis
    by (intro conjI len3 ok ok_calls len2 few len4 blank)
qed

end
